theory Spec2Isabelle
  imports Complex_Main "HOL-Library.AList" "HOL-Library.List_Lexorder" "HOL-Library.Char_ord"
begin

section \<open>Tables\<close>

text \<open>
  The module \<^verbatim>\<open>structured.py\<close> transforms pandas data frames. A frame is a row index (one
  label per row) and an ordered list of named columns; every column has one dtype. The column
  kinds below are the dtypes the four functions distinguish:
  \<^item> \<open>Object\<close>: dtype object holding text, \<open>None\<close> is a missing entry;
  \<^item> \<open>Number\<close>: a float column, \<open>None\<close> is NaN; the values are exact rationals here, so
    rounding and overflow of machine floats are outside this development;
  \<^item> \<open>Integer\<close> and \<open>Boolean\<close>: integer and bool columns, which cannot hold a missing entry;
  \<^item> \<open>Datetime\<close> and \<open>DatetimeTZ\<close>: timestamps (nanoseconds since the epoch), \<open>None\<close> is NaT;
  \<^item> \<open>Category\<close>: the categories, the ordered flag and one code per row, where the code is
    the position of the row's category and \<open>-1\<close> marks a missing entry.
\<close>

datatype error = KeyError | ValueError | TypeError | AttributeError | Unsupported

datatype column =
    Object "string option list"
  | Number "rat option list"
  | Integer "int list"
  | Boolean "bool list"
  | Datetime "int option list"
  | DatetimeTZ string "int option list"
  | Category "string list" bool "int list"

record table =
  index :: "int list"
  columns :: "(string \<times> column) list"

fun col_length :: "column \<Rightarrow> nat" where
  "col_length (Object xs) = length xs"
| "col_length (Number xs) = length xs"
| "col_length (Integer xs) = length xs"
| "col_length (Boolean xs) = length xs"
| "col_length (Datetime xs) = length xs"
| "col_length (DatetimeTZ tz xs) = length xs"
| "col_length (Category cats ord codes) = length codes"

fun wf_column :: "column \<Rightarrow> bool" where
  "wf_column (Category cats ord codes) =
     (distinct cats \<and> list_all (\<lambda>c. - 1 \<le> c \<and> c < int (length cats)) codes)"
| "wf_column c = True"

definition names :: "table \<Rightarrow> string list" where
  "names t = map fst (columns t)"

definition wf_table :: "table \<Rightarrow> bool" where
  "wf_table t \<longleftrightarrow>
     distinct (names t) \<and>
     list_all (\<lambda>(n, c). col_length c = length (index t) \<and> wf_column c) (columns t)"

subsection \<open>Column access\<close>

text \<open>
  \<^verbatim>\<open>df[name]\<close> raises KeyError for a name that is not a column. The column names of a frame
  are taken to be distinct (\<open>wf_table\<close>): for a name that occurs twice pandas gives a frame
  and not a column, and the facts below about the four functions assume distinct names.
\<close>

definition getitem :: "table \<Rightarrow> string \<Rightarrow> error + column" where
  "getitem t name = (case map_of (columns t) name of None \<Rightarrow> Inl KeyError | Some c \<Rightarrow> Inr c)"

text \<open>\<^verbatim>\<open>df[name] = c\<close> replaces the column of that name where it stands, or appends a new one.\<close>

definition setitem :: "table \<Rightarrow> string \<Rightarrow> column \<Rightarrow> table" where
  "setitem t name c = t\<lparr>columns := AList.update name c (columns t)\<rparr>"

text \<open>\<^verbatim>\<open>df.drop(labels, axis = 1)\<close> raises KeyError when a label is not a column.\<close>

definition drop_columns :: "table \<Rightarrow> string list \<Rightarrow> error + table" where
  "drop_columns t labels =
     (if list_all (\<lambda>l. l \<in> set (names t)) labels
      then Inr (t\<lparr>columns := filter (\<lambda>(n, c). n \<notin> set labels) (columns t)\<rparr>)
      else Inl KeyError)"

subsection \<open>Column selectors\<close>

text \<open>A selector argument is \<^verbatim>\<open>None\<close>, one name or a list of names.\<close>

datatype selector = NoSelection | Single string | Several "string list"

fun normalize :: "selector \<Rightarrow> string list" where
  "normalize NoSelection = []"
| "normalize (Single name) = [name]"
| "normalize (Several ns) = ns"

subsection \<open>Dtype predicates\<close>

fun is_string_dtype :: "column \<Rightarrow> bool" where
  "is_string_dtype (Object xs) = True"
| "is_string_dtype c = False"

fun is_categorical_dtype :: "column \<Rightarrow> bool" where
  "is_categorical_dtype (Category cats ord codes) = True"
| "is_categorical_dtype c = False"

fun is_numeric_dtype :: "column \<Rightarrow> bool" where
  "is_numeric_dtype (Number xs) = True"
| "is_numeric_dtype (Integer xs) = True"
| "is_numeric_dtype (Boolean xs) = True"
| "is_numeric_dtype c = False"

subsection \<open>Categorical columns\<close>

definition present :: "'a option list \<Rightarrow> 'a list" where
  "present xs = map the (filter (\<lambda>x. x \<noteq> None) xs)"

fun index_of :: "'a \<Rightarrow> 'a list \<Rightarrow> nat" where
  "index_of v [] = 0"
| "index_of v (x # xs) = (if x = v then 0 else Suc (index_of v xs))"

definition code_of :: "string list \<Rightarrow> string option \<Rightarrow> int" where
  "code_of cats x = (case x of None \<Rightarrow> - 1 | Some v \<Rightarrow> int (index_of v cats))"

text \<open>
  \<^verbatim>\<open>astype('category')\<close> on a text column: the categories are the distinct values present, in
  sorted order, and the column is unordered. The module applies the cast to text columns only.
\<close>

fun astype_category :: "column \<Rightarrow> column" where
  "astype_category (Object xs) =
     (let cats = sort (remdups (present xs)) in Category cats False (map (code_of cats) xs))"
| "astype_category c = c"

fun as_ordered :: "column \<Rightarrow> column" where
  "as_ordered (Category cats ord codes) = Category cats True codes"
| "as_ordered c = c"

fun cat_categories :: "column \<Rightarrow> string list" where
  "cat_categories (Category cats ord codes) = cats"
| "cat_categories c = []"

fun cat_codes :: "column \<Rightarrow> int list" where
  "cat_codes (Category cats ord codes) = codes"
| "cat_codes c = []"

fun cat_ordered :: "column \<Rightarrow> bool" where
  "cat_ordered (Category cats ord codes) = ord"
| "cat_ordered c = False"

text \<open>\<^verbatim>\<open>dict(enumerate(categories))\<close>, as an association list in the order of the keys.\<close>

definition enumerate_dict :: "string list \<Rightarrow> (int \<times> string) list" where
  "enumerate_dict cats = zip (map int [0..<length cats]) cats"

datatype mapper_entry = Coded "(int \<times> string) list" | OneHot

text \<open>
  \<^verbatim>\<open>pd.get_dummies(column, prefix = p)\<close>: one 0/1 column per category, named
  \<^verbatim>\<open>p_category\<close>, on the index of the column. A row with a missing entry is 0 in all of them.
\<close>

definition indicator :: "int list \<Rightarrow> nat \<Rightarrow> int list" where
  "indicator codes k = map (\<lambda>c. if c = int k then 1 else 0) codes"

definition get_dummies :: "int list \<Rightarrow> column \<Rightarrow> string \<Rightarrow> table" where
  "get_dummies idx col prefix =
     \<lparr>index = idx,
      columns = map (\<lambda>k. (prefix @ ''_'' @ cat_categories col ! k, Integer (indicator (cat_codes col) k)))
                    [0..<length (cat_categories col)]\<rparr>"

subsection \<open>Joining on the index\<close>

text \<open>
  \<^verbatim>\<open>left.join(right)\<close> pairs every row of the left frame with the rows of the right frame that
  carry the same label, in the order of the left frame; a label that occurs several times on both
  sides gives every combination. Column names that occur on both sides raise ValueError. A left
  row without a partner would get missing values on the right, for which a column of booleans has
  no representation here: the model raises \<open>Unsupported\<close> there.
\<close>

definition partners :: "int list \<Rightarrow> int \<Rightarrow> nat list" where
  "partners idx l = filter (\<lambda>j. idx ! j = l) [0..<length idx]"

definition join_rows :: "int list \<Rightarrow> int list \<Rightarrow> (nat \<times> nat) list" where
  "join_rows left right =
     concat (map (\<lambda>i. map (\<lambda>j. (i, j)) (partners right (left ! i))) [0..<length left])"

fun take_rows :: "nat list \<Rightarrow> column \<Rightarrow> column" where
  "take_rows ps (Object xs) = Object (map (\<lambda>p. xs ! p) ps)"
| "take_rows ps (Number xs) = Number (map (\<lambda>p. xs ! p) ps)"
| "take_rows ps (Integer xs) = Integer (map (\<lambda>p. xs ! p) ps)"
| "take_rows ps (Boolean xs) = Boolean (map (\<lambda>p. xs ! p) ps)"
| "take_rows ps (Datetime xs) = Datetime (map (\<lambda>p. xs ! p) ps)"
| "take_rows ps (DatetimeTZ tz xs) = DatetimeTZ tz (map (\<lambda>p. xs ! p) ps)"
| "take_rows ps (Category cats ord codes) = Category cats ord (map (\<lambda>p. codes ! p) ps)"

definition join :: "table \<Rightarrow> table \<Rightarrow> error + table" where
  "join left right =
     (if \<exists>n \<in> set (names left). n \<in> set (names right) then Inl ValueError
      else if \<exists>l \<in> set (index left). l \<notin> set (index right) then Inl Unsupported
      else let rows = join_rows (index left) (index right) in
        Inr \<lparr>index = map (\<lambda>(i, j). index left ! i) rows,
             columns = map (\<lambda>(n, c). (n, take_rows (map fst rows) c)) (columns left) @
                       map (\<lambda>(n, c). (n, take_rows (map snd rows) c)) (columns right)\<rparr>)"

subsection \<open>Missing values and the median\<close>

fun isnull :: "column \<Rightarrow> column" where
  "isnull (Object xs) = Boolean (map (\<lambda>x. x = None) xs)"
| "isnull (Number xs) = Boolean (map (\<lambda>x. x = None) xs)"
| "isnull (Integer xs) = Boolean (map (\<lambda>x. False) xs)"
| "isnull (Boolean xs) = Boolean (map (\<lambda>x. False) xs)"
| "isnull (Datetime xs) = Boolean (map (\<lambda>x. x = None) xs)"
| "isnull (DatetimeTZ tz xs) = Boolean (map (\<lambda>x. x = None) xs)"
| "isnull (Category cats ord codes) = Boolean (map (\<lambda>c. c = - 1) codes)"

text \<open>The entries of a numeric column as numbers: a boolean counts as 0 or 1.\<close>

fun numeric_values :: "column \<Rightarrow> rat option list" where
  "numeric_values (Number xs) = xs"
| "numeric_values (Integer xs) = map (\<lambda>x. Some (of_int x)) xs"
| "numeric_values (Boolean xs) = map (\<lambda>b. Some (if b then 1 else 0)) xs"
| "numeric_values c = []"

text \<open>
  The median skips missing entries; it is the middle value of the sorted entries, or the mean of
  the two middle values, and NaN (\<open>None\<close>) when no entry is present.
\<close>

definition median_list :: "rat list \<Rightarrow> rat option" where
  "median_list xs =
     (let ys = sort xs; n = length ys in
      if n = 0 then None
      else if odd n then Some (ys ! (n div 2))
      else Some ((ys ! (n div 2 - 1) + ys ! (n div 2)) / 2))"

definition median :: "column \<Rightarrow> rat option" where
  "median col = median_list (present (numeric_values col))"

text \<open>
  \<^verbatim>\<open>fillna(value = m)\<close> fills the missing entries of a float column; integer and boolean
  columns have none and come back as they are.
\<close>

fun fillna :: "column \<Rightarrow> rat option \<Rightarrow> column" where
  "fillna (Number xs) m = Number (map (\<lambda>x. case x of None \<Rightarrow> m | Some v \<Rightarrow> Some v) xs)"
| "fillna c m = c"

subsection \<open>Dates\<close>

text \<open>
  The calendar of the library is a parameter: \<open>parse\<close> reads a timestamp from text (\<open>None\<close>
  when the text is no date) and \<open>field\<close> gives the value of a named attribute of a timestamp
  in a time zone (\<open>None\<close> for a column without time zone); a boolean attribute is 0 or 1.
\<close>

record calendar =
  parse :: "string \<Rightarrow> int option"
  field :: "string option \<Rightarrow> string \<Rightarrow> int \<Rightarrow> int"

datatype dtype = object | float64 | int64 | bool | datetime64 | DatetimeTZDtype string | CategoricalDtype

fun dtype_of :: "column \<Rightarrow> dtype" where
  "dtype_of (Object xs) = object"
| "dtype_of (Number xs) = float64"
| "dtype_of (Integer xs) = int64"
| "dtype_of (Boolean xs) = bool"
| "dtype_of (Datetime xs) = datetime64"
| "dtype_of (DatetimeTZ tz xs) = DatetimeTZDtype tz"
| "dtype_of (Category cats ord codes) = CategoricalDtype"

text \<open>
  \<^verbatim>\<open>np.issubdtype(d, np.datetime64)\<close>: numpy cannot interpret the dtypes that pandas adds
  (categorical, datetime with time zone) and raises TypeError.
\<close>

fun issubdtype_datetime64 :: "dtype \<Rightarrow> error + bool" where
  "issubdtype_datetime64 datetime64 = Inr True"
| "issubdtype_datetime64 CategoricalDtype = Inl TypeError"
| "issubdtype_datetime64 (DatetimeTZDtype tz) = Inl TypeError"
| "issubdtype_datetime64 d = Inr False"

fun parse_all :: "(string \<Rightarrow> int option) \<Rightarrow> string option list \<Rightarrow> error + int option list" where
  "parse_all p [] = Inr []"
| "parse_all p (None # xs) = (case parse_all p xs of Inl e \<Rightarrow> Inl e | Inr ys \<Rightarrow> Inr (None # ys))"
| "parse_all p (Some x # xs) =
     (case p x of None \<Rightarrow> Inl ValueError
      | Some d \<Rightarrow> (case parse_all p xs of Inl e \<Rightarrow> Inl e | Inr ys \<Rightarrow> Inr (Some d # ys)))"

text \<open>
  \<^verbatim>\<open>astype(np.datetime64)\<close>: text is parsed entry by entry, a missing entry becomes NaT;
  the cast of a numeric column to the dtype without unit raises ValueError. The module reaches
  the cast with text and numeric columns only.
\<close>

fun astype_datetime64 :: "calendar \<Rightarrow> column \<Rightarrow> error + column" where
  "astype_datetime64 cal (Object xs) =
     (case parse_all (parse cal) xs of Inl e \<Rightarrow> Inl e | Inr ds \<Rightarrow> Inr (Datetime ds))"
| "astype_datetime64 cal (Datetime xs) = Inr (Datetime xs)"
| "astype_datetime64 cal (DatetimeTZ tz xs) = Inr (Datetime xs)"
| "astype_datetime64 cal c = Inl ValueError"

definition boolean_attrs :: "string list" where
  "boolean_attrs = [''is_month_end'', ''is_month_start'', ''is_quarter_end'',
                    ''is_quarter_start'', ''is_year_end'', ''is_year_start'']"

text \<open>
  \<^verbatim>\<open>getattr(column.dt, attr)\<close>: a boolean attribute is false at NaT; another attribute gives
  an integer column, or a float column with NaN at every NaT. A column that holds no timestamps
  has no \<^verbatim>\<open>dt\<close> accessor.
\<close>

definition attr_values :: "calendar \<Rightarrow> string option \<Rightarrow> string \<Rightarrow> int option list \<Rightarrow> column" where
  "attr_values cal tz attr xs =
     (if attr \<in> set boolean_attrs
      then Boolean (map (\<lambda>x. case x of None \<Rightarrow> False | Some d \<Rightarrow> field cal tz attr d \<noteq> 0) xs)
      else if list_all (\<lambda>x. x \<noteq> None) xs
      then Integer (map (\<lambda>x. field cal tz attr (the x)) xs)
      else Number (map (map_option (\<lambda>d. of_int (field cal tz attr d))) xs))"

fun dt_attr :: "calendar \<Rightarrow> string \<Rightarrow> column \<Rightarrow> error + column" where
  "dt_attr cal attr (Datetime xs) = Inr (attr_values cal None attr xs)"
| "dt_attr cal attr (DatetimeTZ tz xs) = Inr (attr_values cal (Some tz) attr xs)"
| "dt_attr cal attr c = Inl AttributeError"

text \<open>
  \<^verbatim>\<open>re.sub('[Dd]ate$', '', feature)\<close>: the pattern matches \<^verbatim>\<open>Date\<close> or \<^verbatim>\<open>date\<close> at the end
  of the name, or just before a newline that ends the name.
\<close>

definition stem :: "string \<Rightarrow> string" where
  "stem feature =
     (let n = length feature in
      if 4 \<le> n \<and> drop (n - 4) feature \<in> {''Date'', ''date''} then take (n - 4) feature
      else if 5 \<le> n \<and> drop (n - 5) feature \<in> {''Date'' @ [CHR 0x0A], ''date'' @ [CHR 0x0A]}
      then take (n - 5) feature @ [CHR 0x0A]
      else feature)"

section \<open>Frames as objects\<close>

text \<open>
  A frame is an object: \<^verbatim>\<open>df[name] = c\<close> changes it in place, and whoever holds a reference
  sees the change. The store lists the frames allocated so far; a reference is a position in it.
  \<^verbatim>\<open>copy\<close>, \<^verbatim>\<open>drop\<close>, \<^verbatim>\<open>join\<close> and \<^verbatim>\<open>get_dummies\<close> build a new frame.
\<close>

type_synonym store = "table list"
type_synonym ref = nat

definition allocate :: "store \<Rightarrow> table \<Rightarrow> ref \<times> store" where
  "allocate s t = (length s, s @ [t])"

definition frame_copy :: "store \<Rightarrow> ref \<Rightarrow> ref \<times> store" where
  "frame_copy s a = allocate s (s ! a)"

definition frame_setitem :: "store \<Rightarrow> ref \<Rightarrow> string \<Rightarrow> column \<Rightarrow> store" where
  "frame_setitem s a name c = s[a := setitem (s ! a) name c]"

definition frame_drop :: "store \<Rightarrow> ref \<Rightarrow> string list \<Rightarrow> (error + ref) \<times> store" where
  "frame_drop s a labels =
     (case drop_columns (s ! a) labels of
        Inl e \<Rightarrow> (Inl e, s)
      | Inr t \<Rightarrow> (case allocate s t of (r, s') \<Rightarrow> (Inr r, s')))"

definition frame_join :: "store \<Rightarrow> ref \<Rightarrow> ref \<Rightarrow> (error + ref) \<times> store" where
  "frame_join s a b =
     (case join (s ! a) (s ! b) of
        Inl e \<Rightarrow> (Inl e, s)
      | Inr t \<Rightarrow> (case allocate s t of (r, s') \<Rightarrow> (Inr r, s')))"

text \<open>
  A \<^verbatim>\<open>for\<close> loop over a list: the body gets the element, the store and the loop's variables,
  and an exception in the body ends the loop.
\<close>

fun for_each ::
  "('a \<Rightarrow> store \<Rightarrow> 'x \<Rightarrow> (error + 'x) \<times> store) \<Rightarrow> 'a list \<Rightarrow> store \<Rightarrow> 'x \<Rightarrow> (error + 'x) \<times> store"
where
  "for_each body [] s x = (Inr x, s)"
| "for_each body (f # fs) s x =
     (case body f s x of
        (Inl e, s') \<Rightarrow> (Inl e, s')
      | (Inr x', s') \<Rightarrow> for_each body fs s' x')"

section \<open>The four transformations\<close>

subsection \<open>\<^verbatim>\<open>convert_to_categorical\<close>\<close>

definition convert_feature ::
  "string list \<Rightarrow> string list \<Rightarrow> string \<Rightarrow> store \<Rightarrow> ref \<Rightarrow> (error + ref) \<times> store" where
  "convert_feature ordinal_categorical_features skip_features feature s df =
     (if feature \<in> set skip_features then (Inr df, s)
      else case getitem (s ! df) feature of
        Inl e \<Rightarrow> (Inl e, s)
      | Inr col \<Rightarrow>
          if is_string_dtype col
          then (Inr df, frame_setitem s df feature
                  (if feature \<in> set ordinal_categorical_features
                   then as_ordered (astype_category col) else astype_category col))
          else (Inr df, s))"

definition convert_to_categorical ::
  "store \<Rightarrow> ref \<Rightarrow> selector \<Rightarrow> selector \<Rightarrow> selector \<Rightarrow> (error + ref) \<times> store" where
  "convert_to_categorical s data_frame ordinal_categorical_features drop_features skip_features =
     (case frame_copy s data_frame of (df, s) \<Rightarrow>
      case frame_drop s df (normalize drop_features) of
        (Inl e, s) \<Rightarrow> (Inl e, s)
      | (Inr df, s) \<Rightarrow>
          for_each (convert_feature (normalize ordinal_categorical_features) (normalize skip_features))
            (names (s ! df)) s df)"

subsection \<open>\<^verbatim>\<open>numericalize_categories\<close>\<close>

type_synonym category_mapper = "(string \<times> mapper_entry) list"

definition numericalize_feature ::
  "int \<Rightarrow> string list \<Rightarrow> string \<Rightarrow> store \<Rightarrow> ref \<times> category_mapper \<Rightarrow>
   (error + ref \<times> category_mapper) \<times> store" where
  "numericalize_feature max_categories skip_features feature s x =
     (case x of (df, category_mapper) \<Rightarrow>
      if feature \<in> set skip_features then (Inr x, s)
      else case getitem (s ! df) feature of
        Inl e \<Rightarrow> (Inl e, s)
      | Inr col \<Rightarrow>
          if is_categorical_dtype col then
            if int (length (cat_categories col)) > max_categories then
              (Inr (df, AList.update feature (Coded (enumerate_dict (cat_categories col))) category_mapper),
               frame_setitem s df feature (Integer (map (\<lambda>c. c + 1) (cat_codes col))))
            else
              case allocate s (get_dummies (index (s ! df)) col feature) of (one_hot, s) \<Rightarrow>
              case frame_drop s df [feature] of
                (Inl e, s) \<Rightarrow> (Inl e, s)
              | (Inr df, s) \<Rightarrow>
                  case frame_join s df one_hot of
                    (Inl e, s) \<Rightarrow> (Inl e, s)
                  | (Inr df, s) \<Rightarrow> (Inr (df, AList.update feature OneHot category_mapper), s)
          else (Inr x, s))"

definition numericalize_categories ::
  "store \<Rightarrow> ref \<Rightarrow> int \<Rightarrow> selector \<Rightarrow> (error + ref \<times> category_mapper) \<times> store" where
  "numericalize_categories s data_frame max_categories skip_features =
     (case frame_copy s data_frame of (df, s) \<Rightarrow>
      for_each (numericalize_feature max_categories (normalize skip_features))
        (names (s ! df)) s (df, []))"

subsection \<open>\<^verbatim>\<open>interpolate_missing_values\<close>\<close>

type_synonym numeric_mapper = "(string \<times> rat option) list"

definition interpolate_feature ::
  "string list \<Rightarrow> string \<Rightarrow> store \<Rightarrow> ref \<times> numeric_mapper \<Rightarrow>
   (error + ref \<times> numeric_mapper) \<times> store" where
  "interpolate_feature skip_features feature s x =
     (case x of (df, numeric_mapper) \<Rightarrow>
      if feature \<in> set skip_features then (Inr x, s)
      else case getitem (s ! df) feature of
        Inl e \<Rightarrow> (Inl e, s)
      | Inr col \<Rightarrow>
          if is_numeric_dtype col then
            case frame_setitem s df (feature @ ''_missing'') (isnull col) of s \<Rightarrow>
            case getitem (s ! df) feature of
              Inl e \<Rightarrow> (Inl e, s)
            | Inr col \<Rightarrow>
                case frame_setitem s df feature (fillna col (median col)) of s \<Rightarrow>
                case getitem (s ! df) feature of
                  Inl e \<Rightarrow> (Inl e, s)
                | Inr col \<Rightarrow> (Inr (df, AList.update feature (median col) numeric_mapper), s)
          else (Inr x, s))"

definition interpolate_missing_values ::
  "store \<Rightarrow> ref \<Rightarrow> selector \<Rightarrow> (error + ref \<times> numeric_mapper) \<times> store" where
  "interpolate_missing_values s data_frame skip_features =
     (case frame_copy s data_frame of (df, s) \<Rightarrow>
      for_each (interpolate_feature (normalize skip_features)) (names (s ! df)) s (df, []))"

subsection \<open>\<^verbatim>\<open>extract_date_features\<close>\<close>

definition date_attrs :: "string list" where
  "date_attrs = [''year'', ''month'', ''week'', ''day'',
                 ''dayofweek'', ''dayofyear'', ''is_month_end'', ''is_month_start'',
                 ''is_quarter_end'', ''is_quarter_start'', ''is_year_end'', ''is_year_start'']"

definition attrs_for :: "bool \<Rightarrow> string list" where
  "attrs_for time = (if time then date_attrs @ [''hour'', ''minute'', ''second''] else date_attrs)"

definition extract_attr ::
  "calendar \<Rightarrow> string \<Rightarrow> string \<Rightarrow> string \<Rightarrow> store \<Rightarrow> ref \<Rightarrow> (error + ref) \<times> store" where
  "extract_attr cal feature name attr s df =
     (case getitem (s ! df) feature of
        Inl e \<Rightarrow> (Inl e, s)
      | Inr col \<Rightarrow>
          (case dt_attr cal attr col of
             Inl e \<Rightarrow> (Inl e, s)
           | Inr c \<Rightarrow> (Inr df, frame_setitem s df (name @ ''_'' @ attr) c)))"

definition extract_feature ::
  "calendar \<Rightarrow> string list \<Rightarrow> bool \<Rightarrow> string \<Rightarrow> store \<Rightarrow> ref \<Rightarrow> (error + ref) \<times> store" where
  "extract_feature cal attrs drop_flag feature s df =
     (case getitem (s ! df) feature of
        Inl e \<Rightarrow> (Inl e, s)
      | Inr column \<Rightarrow>
          (case issubdtype_datetime64
                  (case dtype_of column of DatetimeTZDtype tz \<Rightarrow> datetime64 | d \<Rightarrow> d) of
             Inl e \<Rightarrow> (Inl e, s)
           | Inr is_date \<Rightarrow>
               (case (if is_date then (Inr df, s)
                      else case astype_datetime64 cal column of
                             Inl e \<Rightarrow> (Inl e, s)
                           | Inr c \<Rightarrow> (Inr df, frame_setitem s df feature c)) of
                  (Inl e, s) \<Rightarrow> (Inl e, s)
                | (Inr df, s) \<Rightarrow>
                    (case for_each (extract_attr cal feature (stem feature)) attrs s df of
                       (Inl e, s) \<Rightarrow> (Inl e, s)
                     | (Inr df, s) \<Rightarrow>
                         if drop_flag then frame_drop s df [feature] else (Inr df, s)))))"

definition extract_date_features ::
  "calendar \<Rightarrow> store \<Rightarrow> ref \<Rightarrow> selector \<Rightarrow> bool \<Rightarrow> bool \<Rightarrow> (error + ref) \<times> store" where
  "extract_date_features cal s data_frame date_features time drop_flag =
     (case frame_copy s data_frame of (df, s) \<Rightarrow>
      case date_features of
        NoSelection \<Rightarrow> (Inl TypeError, s)
      | _ \<Rightarrow> for_each (extract_feature cal (attrs_for time) drop_flag) (normalize date_features) s df)"

section \<open>Example frames\<close>

text \<open>The frame of the docstrings: a numeric column and two text columns.\<close>

definition example_frame :: table where
  "example_frame =
     \<lparr>index = [0, 1, 2],
      columns = [(''col1'', Integer [1, 2, 3]),
                 (''col2'', Object [Some ''a'', Some ''b'', Some ''a'']),
                 (''col3'', Object [Some ''Low'', Some ''Medium'', Some ''High''])]\<rparr>"

text \<open>A calendar for the examples: every nonempty text is a date, and every attribute of a
  timestamp is the timestamp itself.\<close>

definition example_calendar :: calendar where
  "example_calendar =
     \<lparr>parse = (\<lambda>txt. if txt = [] then None else Some (int (length txt))),
      field = (\<lambda>tz attr d. d)\<rparr>"

definition date_frame :: table where
  "date_frame =
     \<lparr>index = [0, 1],
      columns = [(''SaleDate'', Object [Some ''3/11/2000'', None]),
                 (''date'', Datetime [Some 7, Some 8]),
                 (''SaleDATE'', Object [Some ''3/12/2000'', Some ''3/13/2000'']),
                 (''price'', Integer [10, 20])]\<rparr>"

text \<open>The call of the first docstring, with \<^verbatim>\<open>col3\<close> declared ordinal.\<close>

definition example_conversion :: "(error + ref) \<times> store" where
  "example_conversion =
     convert_to_categorical [example_frame] 0 (Single ''col3'') (Single ''col1'') (Single ''col2'')"

text \<open>The names of the columns that the extraction derives from the date columns \<open>feats\<close>.\<close>

definition derived_names :: "string list \<Rightarrow> string list \<Rightarrow> string list" where
  "derived_names feats attrs = concat (map (\<lambda>g. map (\<lambda>a. stem g @ ''_'' @ a) attrs) feats)"

text \<open>Three extractions from the frame with dates: two columns at once with the defaults, one
  column with the time attributes and without dropping it, and the column whose name ends in
  capitals.\<close>

definition example_extraction :: "(error + ref) \<times> store" where
  "example_extraction =
     extract_date_features example_calendar [date_frame] 0 (Several [''SaleDate'', ''date'']) False True"


definition example_extraction_capitals :: "(error + ref) \<times> store" where
  "example_extraction_capitals =
     extract_date_features example_calendar [date_frame] 0 (Single ''SaleDATE'') False True"

text \<open>A frame with a categorical column that has a missing entry, numericalized with the
  default threshold (codes) and with a threshold of two (indicator columns).\<close>

definition missing_frame :: table where
  "missing_frame =
     \<lparr>index = [0, 1, 2],
      columns = [(''c'', Category [''x'', ''y''] False [0, - 1, 1]),
                 (''n'', Integer [5, 6, 7])]\<rparr>"

definition example_coding :: "(error + ref \<times> category_mapper) \<times> store" where
  "example_coding = numericalize_categories [missing_frame] 0 0 NoSelection"

definition example_one_hot :: "(error + ref \<times> category_mapper) \<times> store" where
  "example_one_hot = numericalize_categories [missing_frame] 0 2 NoSelection"

text \<open>A frame whose two rows carry the same label.\<close>

definition repeated_frame :: table where
  "repeated_frame =
     \<lparr>index = [0, 0],
      columns = [(''a'', Category [''x'', ''y''] False [0, 1]),
                 (''b'', Integer [10, 20])]\<rparr>"

definition example_repeated :: "(error + ref \<times> category_mapper) \<times> store" where
  "example_repeated = numericalize_categories [repeated_frame] 0 2 NoSelection"

text \<open>The timestamps and the time zone of a datetime column.\<close>

fun is_datetime :: "column \<Rightarrow> bool" where
  "is_datetime (Datetime xs) = True"
| "is_datetime (DatetimeTZ tz xs) = True"
| "is_datetime c = False"



text \<open>A column whose name ends in a newline, and two date columns with the same stem.\<close>

definition newline_frame :: table where
  "newline_frame =
     \<lparr>index = [0],
      columns = [(''Saledate'' @ [CHR 0x0A], Datetime [Some 3])]\<rparr>"

definition example_extraction_newline :: "(error + ref) \<times> store" where
  "example_extraction_newline =
     extract_date_features example_calendar [newline_frame] 0
       (Single (''Saledate'' @ [CHR 0x0A])) False True"






text \<open>A column that the numericalization replaces by indicator columns, and the names of these:
  a categorical column that is not skipped and has at most \<open>maxc\<close> categories.\<close>

definition one_hot_column :: "int \<Rightarrow> string list \<Rightarrow> table \<Rightarrow> string \<Rightarrow> bool" where
  "one_hot_column maxc skp t d \<longleftrightarrow>
     d \<notin> set skp \<and>
     (case getitem t d of
        Inr col \<Rightarrow> is_categorical_dtype col \<and> int (length (cat_categories col)) \<le> maxc
      | Inl e \<Rightarrow> False)"

definition indicator_names :: "table \<Rightarrow> string \<Rightarrow> string list" where
  "indicator_names t d =
     (case getitem t d of
        Inr col \<Rightarrow> map (\<lambda>v. d @ ''_'' @ v) (cat_categories col)
      | Inl e \<Rightarrow> [])"

section \<open>Facts about the primitives\<close>

subsection \<open>Columns of a table\<close>

lemma getitem_setitem [simp]:
  "getitem (setitem t n c) m = (if m = n then Inr c else getitem t m)"
  by (simp add: getitem_def setitem_def update_conv')

lemma index_setitem [simp]: "index (setitem t n c) = index t"
  by (simp add: setitem_def)

lemma names_setitem [simp]: "set (names (setitem t n c)) = insert n (set (names t))"
  by (simp add: names_def setitem_def dom_update)

lemma distinct_names_setitem: "distinct (names t) \<Longrightarrow> distinct (names (setitem t n c))"
  by (simp add: names_def setitem_def distinct_update)

lemma getitem_names: "getitem t n = Inr c \<Longrightarrow> n \<in> set (names t)"
  by (auto simp: getitem_def names_def split: option.splits dest: map_of_SomeD intro: rev_image_eqI)

lemma getitem_KeyError: "getitem t n = Inl e \<Longrightarrow> n \<notin> set (names t) \<and> e = KeyError"
  by (auto simp: getitem_def names_def map_of_eq_None_iff split: option.splits)

lemma names_getitem: "n \<in> set (names t) \<Longrightarrow> \<exists>c. getitem t n = Inr c"
  by (cases "getitem t n") (auto dest: getitem_KeyError)

lemma getitem_columns: "getitem t n = Inr c \<Longrightarrow> (n, c) \<in> set (columns t)"
  by (auto simp: getitem_def split: option.splits dest: map_of_SomeD)

lemma wf_table_getitem:
  "wf_table t \<Longrightarrow> getitem t n = Inr c \<Longrightarrow> col_length c = length (index t) \<and> wf_column c"
  by (auto simp: wf_table_def list_all_iff dest!: getitem_columns)

lemma set_update_subset: "set (AList.update k v al) \<subseteq> insert (k, v) (set al)"
  by (induction al) auto

lemma wf_table_setitem:
  "wf_table t \<Longrightarrow> col_length c = length (index t) \<Longrightarrow> wf_column c \<Longrightarrow> wf_table (setitem t n c)"
  unfolding wf_table_def
  using set_update_subset [of n c "columns t"]
  by (auto simp: distinct_names_setitem list_all_iff setitem_def names_def distinct_update)

lemma map_of_filter_keys:
  "map_of (filter (\<lambda>(n, c). P n) al) k = (if P k then map_of al k else None)"
  by (induction al) auto

lemma drop_columns_Inl: "drop_columns t ls = Inl e \<Longrightarrow> e = KeyError \<and> \<not> set ls \<subseteq> set (names t)"
  by (auto simp: drop_columns_def list_all_iff split: if_splits)

lemma drop_columns_index: "drop_columns t ls = Inr t' \<Longrightarrow> index t' = index t"
  by (auto simp: drop_columns_def split: if_splits)

lemma drop_columns_names:
  "drop_columns t ls = Inr t' \<Longrightarrow> set (names t') = set (names t) - set ls \<and> set ls \<subseteq> set (names t)"
  by (auto simp: drop_columns_def names_def list_all_iff split: if_splits)

lemma drop_columns_getitem:
  "drop_columns t ls = Inr t' \<Longrightarrow> getitem t' n = (if n \<in> set ls then Inl KeyError else getitem t n)"
  by (auto simp: drop_columns_def getitem_def map_of_filter_keys split: if_splits)

lemma drop_columns_wf: "drop_columns t ls = Inr t' \<Longrightarrow> wf_table t \<Longrightarrow> wf_table t'"
  by (auto simp: drop_columns_def wf_table_def names_def list_all_iff distinct_map_filter split: if_splits)

subsection \<open>The store\<close>

lemma allocate_eq: "allocate s t = (r, s') \<longleftrightarrow> r = length s \<and> s' = s @ [t]"
  by (auto simp: allocate_def)

lemma frame_copy_eq: "frame_copy s a = (r, s') \<longleftrightarrow> r = length s \<and> s' = s @ [s ! a]"
  by (auto simp: frame_copy_def allocate_def)

lemma frame_setitem_same [simp]:
  "a < length s \<Longrightarrow> frame_setitem s a n c ! a = setitem (s ! a) n c"
  by (simp add: frame_setitem_def)

lemma frame_setitem_other [simp]:
  "b \<noteq> a \<Longrightarrow> frame_setitem s a n c ! b = s ! b"
  by (simp add: frame_setitem_def)

lemma length_frame_setitem [simp]: "length (frame_setitem s a n c) = length s"
  by (simp add: frame_setitem_def)

lemma take_frame_setitem [simp]: "k \<le> a \<Longrightarrow> take k (frame_setitem s a n c) = take k s"
  by (simp add: frame_setitem_def)

lemma frame_drop_Inr:
  "frame_drop s a ls = (Inr r, s') \<longleftrightarrow>
     (\<exists>t. drop_columns (s ! a) ls = Inr t \<and> r = length s \<and> s' = s @ [t])"
  by (auto simp: frame_drop_def allocate_def split: sum.splits)

lemma frame_drop_Inl:
  "frame_drop s a ls = (Inl e, s') \<longleftrightarrow> drop_columns (s ! a) ls = Inl e \<and> s' = s"
  by (auto simp: frame_drop_def allocate_def split: sum.splits)

lemma frame_join_Inr:
  "frame_join s a b = (Inr r, s') \<longleftrightarrow>
     (\<exists>t. join (s ! a) (s ! b) = Inr t \<and> r = length s \<and> s' = s @ [t])"
  by (auto simp: frame_join_def allocate_def split: sum.splits)

lemma frame_join_Inl:
  "frame_join s a b = (Inl e, s') \<longleftrightarrow> join (s ! a) (s ! b) = Inl e \<and> s' = s"
  by (auto simp: frame_join_def allocate_def split: sum.splits)

subsection \<open>Loops\<close>

text \<open>
  An invariant of a loop that ends without an exception: it may mention the elements already
  processed, and the step may use where in the list the element stands.
\<close>

lemma for_each_suffix:
  assumes "for_each body post s x = (Inr y, s')"
    and "fs = pre @ post"
    and "I pre s x"
    and "\<And>pre f post s x y s'. fs = pre @ f # post \<Longrightarrow> I pre s x \<Longrightarrow>
           body f s x = (Inr y, s') \<Longrightarrow> I (pre @ [f]) s' y"
  shows "I fs s' y"
  using assms(1-3)
proof (induction post arbitrary: pre s x)
  case Nil
  then show ?case by simp
next
  case (Cons f post)
  show ?case
  proof (cases "body f s x")
    case (Pair res s1)
    show ?thesis
    proof (cases res)
      case (Inl e)
      with Pair Cons.prems(1) show ?thesis by simp
    next
      case (Inr x1)
      with Pair Cons.prems(1) have run: "for_each body post s1 x1 = (Inr y, s')" by simp
      from Pair Inr have step: "body f s x = (Inr x1, s1)" by simp
      have "I (pre @ [f]) s1 x1"
        using assms(4) [OF _ Cons.prems(3) step] Cons.prems(2) by simp
      moreover have "fs = (pre @ [f]) @ post" using Cons.prems(2) by simp
      ultimately show ?thesis using Cons.IH [OF run] by blast
    qed
  qed
qed

lemma for_each_invariant:
  assumes "for_each body fs s x = (Inr y, s')"
    and "I [] s x"
    and "\<And>pre f post s x y s'. fs = pre @ f # post \<Longrightarrow> I pre s x \<Longrightarrow>
           body f s x = (Inr y, s') \<Longrightarrow> I (pre @ [f]) s' y"
  shows "I fs s' y"
  using for_each_suffix [where pre = "[]" and I = I, OF assms(1) _ assms(2)] assms(3)
  by simp

text \<open>
  A property of the store that survives the loop however it ends: \<open>J\<close> relates the store and the
  loop's variables between two steps, \<open>K\<close> is what holds of the store at the end.
\<close>

lemma for_each_store:
  assumes "J s x"
    and "\<And>s x. J s x \<Longrightarrow> K s"
    and "\<And>f s x res s'. f \<in> set fs \<Longrightarrow> J s x \<Longrightarrow> body f s x = (res, s') \<Longrightarrow>
           K s' \<and> (\<forall>y. res = Inr y \<longrightarrow> J s' y)"
  shows "K (snd (for_each body fs s x)) \<and>
         (\<forall>y. fst (for_each body fs s x) = Inr y \<longrightarrow> J (snd (for_each body fs s x)) y)"
  using assms(1,3)
proof (induction fs arbitrary: s x)
  case Nil
  then show ?case using assms(2) by simp
next
  case (Cons f fs)
  obtain res s1 where step: "body f s x = (res, s1)" by (cases "body f s x")
  have k: "K s1 \<and> (\<forall>y. res = Inr y \<longrightarrow> J s1 y)"
    using Cons.prems(2) [OF _ Cons.prems(1) step] by simp
  show ?case
  proof (cases res)
    case (Inl e)
    with step k show ?thesis by simp
  next
    case (Inr x1)
    with k have j: "J s1 x1" by simp
    have "K (snd (for_each body fs s1 x1)) \<and>
         (\<forall>y. fst (for_each body fs s1 x1) = Inr y \<longrightarrow> J (snd (for_each body fs s1 x1)) y)"
    proof (rule Cons.IH [OF j])
      fix g s x res s'
      assume "g \<in> set fs" "J s x" "body g s x = (res, s')"
      then show "K s' \<and> (\<forall>y. res = Inr y \<longrightarrow> J s' y)"
        using Cons.prems(2) [of g s x res s'] by simp
    qed
    with step Inr show ?thesis by simp
  qed
qed

section \<open>Categorical conversion\<close>

text \<open>
  C9: when the drop set of \<^verbatim>\<open>convert_to_categorical\<close> names a column that the input table
  does not have, the call fails with KeyError; no table is returned, and the only frame built is
  the copy of the input, on which no conversion has been applied.
\<close>

theorem convert_to_categorical_drop_absent:
  assumes "l \<in> set (normalize drop_features)"
    and "l \<notin> set (names (s ! data_frame))"
  shows "convert_to_categorical s data_frame ordinal_categorical_features drop_features skip_features
         = (Inl KeyError, s @ [s ! data_frame])"
proof -
  have "drop_columns (s ! data_frame) (normalize drop_features) = Inl KeyError"
    using assms by (auto simp: drop_columns_def list_all_iff)
  then show ?thesis
    by (simp add: convert_to_categorical_def frame_copy_def allocate_def frame_drop_def)
qed

theorem convert_to_categorical_drop_absent_witness:
  "''colx'' \<in> set (normalize (Single ''colx'')) \<and>
   ''colx'' \<notin> set (names ([example_frame] ! 0)) \<and>
   convert_to_categorical [example_frame] 0 NoSelection (Single ''colx'') (Single ''col2'')
     = (Inl KeyError, [example_frame, example_frame])"
  using convert_to_categorical_drop_absent
    [of "''colx''" "Single ''colx''" "[example_frame]" 0 NoSelection "Single ''col2''"]
  by (simp add: example_frame_def names_def)

section \<open>The input frame is never changed\<close>

text \<open>
  Every step of the four loops writes to the frame the loop variable \<open>df\<close> refers to, or builds
  new frames. When \<open>df\<close> was allocated after the first \<open>n\<close> frames, these stay as they were.
\<close>

lemma convert_feature_frame:
  assumes "n \<le> df" and "df < length s"
    and "convert_feature ord skp f s df = (res, s')"
  shows "take n s' = take n s \<and> (\<forall>y. res = Inr y \<longrightarrow> n \<le> y \<and> y < length s')"
  using assms by (auto simp: convert_feature_def split: if_splits sum.splits)

lemma numericalize_feature_frame:
  assumes "n \<le> fst x" and "fst x < length s"
    and "numericalize_feature maxc skp f s x = (res, s')"
  shows "take n s' = take n s \<and> (\<forall>y. res = Inr y \<longrightarrow> n \<le> fst y \<and> fst y < length s')"
  using assms
  by (cases x)
     (auto simp: numericalize_feature_def allocate_def frame_drop_def frame_join_def
           split: if_splits sum.splits prod.splits)

lemma interpolate_feature_frame:
  assumes "n \<le> fst x" and "fst x < length s"
    and "interpolate_feature skp f s x = (res, s')"
  shows "take n s' = take n s \<and> (\<forall>y. res = Inr y \<longrightarrow> n \<le> fst y \<and> fst y < length s')"
  using assms
  by (cases x) (auto simp: interpolate_feature_def split: if_splits sum.splits)

lemma extract_attr_frame:
  assumes "n \<le> df" and "df < length s"
    and "extract_attr cal f name attr s df = (res, s')"
  shows "take n s' = take n s \<and> (\<forall>y. res = Inr y \<longrightarrow> n \<le> y \<and> y < length s')"
  using assms by (auto simp: extract_attr_def split: sum.splits)

lemma extract_attrs_frame:
  assumes "n \<le> df" and "df < length s"
  shows "take n (snd (for_each (extract_attr cal f name) attrs s df)) = take n s \<and>
         (\<forall>y. fst (for_each (extract_attr cal f name) attrs s df) = Inr y \<longrightarrow>
              n \<le> y \<and> y < length (snd (for_each (extract_attr cal f name) attrs s df)))"
proof -
  let ?J = "\<lambda>s' y. n \<le> y \<and> y < length s' \<and> take n s' = take n s"
  let ?K = "\<lambda>s'. take n s' = take n s"
  have "?K (snd (for_each (extract_attr cal f name) attrs s df)) \<and>
        (\<forall>y. fst (for_each (extract_attr cal f name) attrs s df) = Inr y \<longrightarrow>
             ?J (snd (for_each (extract_attr cal f name) attrs s df)) y)"
  proof (rule for_each_store [where J = ?J and K = ?K])
    show "?J s df" using assms by simp
  next
    fix s1 x1 assume "?J s1 x1" then show "?K s1" by simp
  next
    fix a s1 x1 res s2
    assume "?J s1 x1" and "extract_attr cal f name a s1 x1 = (res, s2)"
    then show "?K s2 \<and> (\<forall>y. res = Inr y \<longrightarrow> ?J s2 y)"
      using extract_attr_frame [of n x1 s1 cal f name a res s2] by simp
  qed
  then show ?thesis by simp
qed

lemma extract_feature_frame:
  assumes "n \<le> df" and "df < length s"
    and "extract_feature cal attrs drop_flag f s df = (res, s')"
  shows "take n s' = take n s \<and> (\<forall>y. res = Inr y \<longrightarrow> n \<le> y \<and> y < length s')"
proof (cases "getitem (s ! df) f")
  case (Inl e)
  with assms show ?thesis by (auto simp: extract_feature_def)
next
  case col: (Inr column)
  show ?thesis
  proof (cases "issubdtype_datetime64
                  (case dtype_of column of DatetimeTZDtype tz \<Rightarrow> datetime64 | d \<Rightarrow> d)")
    case (Inl e)
    with col assms show ?thesis by (auto simp: extract_feature_def)
  next
    case isd: (Inr is_date)
    define cast where "cast = (if is_date then (Inr df, s)
                      else case astype_datetime64 cal column of
                             Inl e \<Rightarrow> (Inl e, s)
                           | Inr c \<Rightarrow> (Inr df, frame_setitem s df f c))"
    obtain r1 s1 where c1: "cast = (r1, s1)" by (cases cast)
    have s1: "take n s1 = take n s \<and> length s1 = length s \<and> (\<forall>y. r1 = Inr y \<longrightarrow> y = df)"
      using c1 assms(1) by (auto simp: cast_def split: if_splits sum.splits)
    show ?thesis
    proof (cases r1)
      case (Inl e)
      with col isd c1 assms(3) s1 show ?thesis
        by (auto simp: extract_feature_def cast_def [symmetric])
    next
      case (Inr d)
      with s1 have d: "d = df" by simp
      obtain r2 s2 where loop: "for_each (extract_attr cal f (stem f)) attrs s1 df = (r2, s2)"
        by (cases "for_each (extract_attr cal f (stem f)) attrs s1 df")
      have s2: "take n s2 = take n s1 \<and> (\<forall>y. r2 = Inr y \<longrightarrow> n \<le> y \<and> y < length s2)"
        using extract_attrs_frame [of n df s1 cal f "stem f" attrs] assms(1,2) s1 loop by simp
      have res: "(res, s') = (case r2 of Inl e \<Rightarrow> (Inl e, s2)
                   | Inr df' \<Rightarrow> if drop_flag then frame_drop s2 df' [f] else (Inr df', s2))"
        using col isd c1 Inr d loop assms(3)
        by (simp add: extract_feature_def cast_def [symmetric])
      show ?thesis
        using res s1 s2
        by (auto simp: frame_drop_def allocate_def split: sum.splits if_splits)
    qed
  qed
qed

text \<open>The loops as a whole, from a store whose first \<open>n\<close> frames are \<open>s0\<close>.\<close>

lemma loop_frame:
  assumes step: "\<And>f s x res s'. n \<le> ref_of x \<Longrightarrow> ref_of x < length s \<Longrightarrow> body f s x = (res, s') \<Longrightarrow>
            take n s' = take n s \<and> (\<forall>y. res = Inr y \<longrightarrow> n \<le> ref_of y \<and> ref_of y < length s')"
    and "n \<le> ref_of x" and "ref_of x < length s"
  shows "take n (snd (for_each body fs s x)) = take n s \<and>
         (\<forall>y. fst (for_each body fs s x) = Inr y \<longrightarrow>
              n \<le> ref_of y \<and> ref_of y < length (snd (for_each body fs s x)))"
proof -
  let ?J = "\<lambda>s' y. n \<le> ref_of y \<and> ref_of y < length s' \<and> take n s' = take n s"
  let ?K = "\<lambda>s'. take n s' = take n s"
  have "?K (snd (for_each body fs s x)) \<and>
        (\<forall>y. fst (for_each body fs s x) = Inr y \<longrightarrow> ?J (snd (for_each body fs s x)) y)"
  proof (rule for_each_store [where J = ?J and K = ?K])
    show "?J s x" using assms(2,3) by simp
  next
    fix s1 x1 assume "?J s1 x1" then show "?K s1" by simp
  next
    fix a s1 x1 res s2
    assume "?J s1 x1" and "body a s1 x1 = (res, s2)"
    then show "?K s2 \<and> (\<forall>y. res = Inr y \<longrightarrow> ?J s2 y)"
      using step [of x1 s1 a res s2] by simp
  qed
  then show ?thesis by simp
qed

lemma convert_to_categorical_frame:
  assumes "convert_to_categorical s a ord drp skp = (res, s')"
  shows "take (length s) s' = s \<and> (\<forall>r. res = Inr r \<longrightarrow> length s \<le> r \<and> r < length s')"
proof (cases "drop_columns (s ! a) (normalize drp)")
  case (Inl e)
  with assms show ?thesis
    by (auto simp: convert_to_categorical_def frame_copy_def allocate_def frame_drop_def)
next
  case (Inr t)
  let ?s2 = "s @ [s ! a] @ [t]"
  let ?loop = "for_each (convert_feature (normalize ord) (normalize skp)) (names t) ?s2 (Suc (length s))"
  have run: "?loop = (res, s')"
    using assms Inr
    by (simp add: convert_to_categorical_def frame_copy_def allocate_def frame_drop_def nth_append)
  have "take (length s) (snd ?loop) = take (length s) ?s2 \<and>
        (\<forall>y. fst ?loop = Inr y \<longrightarrow> length s \<le> y \<and> y < length (snd ?loop))"
    by (rule loop_frame [where ref_of = "\<lambda>r. r"], erule (1) convert_feature_frame, simp, simp_all)
  with run show ?thesis by simp
qed

lemma numericalize_categories_frame:
  assumes "numericalize_categories s a maxc skp = (res, s')"
  shows "take (length s) s' = s \<and> (\<forall>r. res = Inr r \<longrightarrow> length s \<le> fst r \<and> fst r < length s')"
proof -
  let ?s1 = "s @ [s ! a]"
  let ?loop = "for_each (numericalize_feature maxc (normalize skp)) (names (s ! a)) ?s1 (length s, [])"
  have run: "?loop = (res, s')"
    using assms by (simp add: numericalize_categories_def frame_copy_def allocate_def nth_append)
  have "take (length s) (snd ?loop) = take (length s) ?s1 \<and>
        (\<forall>y. fst ?loop = Inr y \<longrightarrow> length s \<le> fst y \<and> fst y < length (snd ?loop))"
    by (rule loop_frame [where ref_of = fst], erule (1) numericalize_feature_frame, simp, simp_all)
  with run show ?thesis by simp
qed

lemma interpolate_missing_values_frame:
  assumes "interpolate_missing_values s a skp = (res, s')"
  shows "take (length s) s' = s \<and> (\<forall>r. res = Inr r \<longrightarrow> length s \<le> fst r \<and> fst r < length s')"
proof -
  let ?s1 = "s @ [s ! a]"
  let ?loop = "for_each (interpolate_feature (normalize skp)) (names (s ! a)) ?s1 (length s, [])"
  have run: "?loop = (res, s')"
    using assms by (simp add: interpolate_missing_values_def frame_copy_def allocate_def nth_append)
  have "take (length s) (snd ?loop) = take (length s) ?s1 \<and>
        (\<forall>y. fst ?loop = Inr y \<longrightarrow> length s \<le> fst y \<and> fst y < length (snd ?loop))"
    by (rule loop_frame [where ref_of = fst], erule (1) interpolate_feature_frame, simp, simp_all)
  with run show ?thesis by simp
qed

lemma extract_date_features_frame:
  assumes "extract_date_features cal s a feats time drop_flag = (res, s')"
  shows "take (length s) s' = s \<and> (\<forall>r. res = Inr r \<longrightarrow> length s \<le> r \<and> r < length s')"
proof (cases "feats = NoSelection")
  case True
  with assms show ?thesis
    by (auto simp: extract_date_features_def frame_copy_def allocate_def)
next
  case False
  let ?s1 = "s @ [s ! a]"
  let ?loop = "for_each (extract_feature cal (attrs_for time) drop_flag) (normalize feats) ?s1 (length s)"
  have run: "?loop = (res, s')"
    using assms False
    by (cases feats) (simp_all add: extract_date_features_def frame_copy_def allocate_def)
  have "take (length s) (snd ?loop) = take (length s) ?s1 \<and>
        (\<forall>y. fst ?loop = Inr y \<longrightarrow> length s \<le> y \<and> y < length (snd ?loop))"
    by (rule loop_frame [where ref_of = "\<lambda>r. r"], erule (1) extract_feature_frame, simp, simp_all)
  with run show ?thesis by simp
qed

text \<open>
  C8: each of the four functions leaves the frame it is given as it was. After the call, whether
  it returns or raises, every frame that existed before the call is unchanged (the input frame
  among them), and the frame returned is a new object.
\<close>

theorem input_frame_unchanged:
  assumes "data_frame < length s"
  shows
    "(snd (convert_to_categorical s data_frame ord drp skp) ! data_frame = s ! data_frame \<and>
      take (length s) (snd (convert_to_categorical s data_frame ord drp skp)) = s \<and>
      (\<forall>r. fst (convert_to_categorical s data_frame ord drp skp) = Inr r \<longrightarrow> length s \<le> r)) \<and>
     (snd (numericalize_categories s data_frame maxc skp) ! data_frame = s ! data_frame \<and>
      take (length s) (snd (numericalize_categories s data_frame maxc skp)) = s \<and>
      (\<forall>r m. fst (numericalize_categories s data_frame maxc skp) = Inr (r, m) \<longrightarrow> length s \<le> r)) \<and>
     (snd (interpolate_missing_values s data_frame skp) ! data_frame = s ! data_frame \<and>
      take (length s) (snd (interpolate_missing_values s data_frame skp)) = s \<and>
      (\<forall>r m. fst (interpolate_missing_values s data_frame skp) = Inr (r, m) \<longrightarrow> length s \<le> r)) \<and>
     (snd (extract_date_features cal s data_frame feats time drop_flag) ! data_frame = s ! data_frame \<and>
      take (length s) (snd (extract_date_features cal s data_frame feats time drop_flag)) = s \<and>
      (\<forall>r. fst (extract_date_features cal s data_frame feats time drop_flag) = Inr r \<longrightarrow> length s \<le> r))"
proof -
  have nth: "s' ! data_frame = s ! data_frame" if "take (length s) s' = s" for s'
  proof -
    have "take (length s) s' ! data_frame = s' ! data_frame" using assms by simp
    with that show ?thesis by simp
  qed
  have c: "take (length s) (snd (convert_to_categorical s data_frame ord drp skp)) = s \<and>
      (\<forall>r. fst (convert_to_categorical s data_frame ord drp skp) = Inr r \<longrightarrow> length s \<le> r)"
    using convert_to_categorical_frame
      [of s data_frame ord drp skp "fst (convert_to_categorical s data_frame ord drp skp)"
          "snd (convert_to_categorical s data_frame ord drp skp)"]
    by simp
  have n: "take (length s) (snd (numericalize_categories s data_frame maxc skp)) = s \<and>
      (\<forall>r m. fst (numericalize_categories s data_frame maxc skp) = Inr (r, m) \<longrightarrow> length s \<le> r)"
    using numericalize_categories_frame
      [of s data_frame maxc skp "fst (numericalize_categories s data_frame maxc skp)"
          "snd (numericalize_categories s data_frame maxc skp)"]
    by simp
  have i: "take (length s) (snd (interpolate_missing_values s data_frame skp)) = s \<and>
      (\<forall>r m. fst (interpolate_missing_values s data_frame skp) = Inr (r, m) \<longrightarrow> length s \<le> r)"
    using interpolate_missing_values_frame
      [of s data_frame skp "fst (interpolate_missing_values s data_frame skp)"
          "snd (interpolate_missing_values s data_frame skp)"]
    by simp
  have e: "take (length s) (snd (extract_date_features cal s data_frame feats time drop_flag)) = s \<and>
      (\<forall>r. fst (extract_date_features cal s data_frame feats time drop_flag) = Inr r \<longrightarrow> length s \<le> r)"
    using extract_date_features_frame
      [of cal s data_frame feats time drop_flag
          "fst (extract_date_features cal s data_frame feats time drop_flag)"
          "snd (extract_date_features cal s data_frame feats time drop_flag)"]
    by simp
  from c have c': "snd (convert_to_categorical s data_frame ord drp skp) ! data_frame = s ! data_frame"
    by (intro nth) simp
  from n have n': "snd (numericalize_categories s data_frame maxc skp) ! data_frame = s ! data_frame"
    by (intro nth) simp
  from i have i': "snd (interpolate_missing_values s data_frame skp) ! data_frame = s ! data_frame"
    by (intro nth) simp
  from e have e': "snd (extract_date_features cal s data_frame feats time drop_flag) ! data_frame = s ! data_frame"
    by (intro nth) simp
  show ?thesis
    by (intro conjI) (use c n i e c' n' i' e' in \<open>blast+\<close>)
qed

theorem input_frame_unchanged_witness:
  "(0::nat) < length [date_frame] \<and>
   fst (convert_to_categorical [date_frame] 0 NoSelection (Single ''price'') NoSelection) = Inr 2 \<and>
   snd (convert_to_categorical [date_frame] 0 NoSelection (Single ''price'') NoSelection) ! 0 = [date_frame] ! 0 \<and>
   fst (numericalize_categories [date_frame] 0 0 NoSelection) = Inr (1, []) \<and>
   snd (numericalize_categories [date_frame] 0 0 NoSelection) ! 0 = [date_frame] ! 0 \<and>
   fst (interpolate_missing_values [date_frame] 0 NoSelection) = Inr (1, [(''price'', Some 15)]) \<and>
   snd (interpolate_missing_values [date_frame] 0 NoSelection) ! 0 = [date_frame] ! 0 \<and>
   fst (extract_date_features example_calendar [date_frame] 0 (Single ''SaleDate'') False True) = Inr 2 \<and>
   snd (extract_date_features example_calendar [date_frame] 0 (Single ''SaleDate'') False True) ! 0 = [date_frame] ! 0"
proof -
  have len: "(0::nat) < length [date_frame]" by simp
  have r1: "fst (convert_to_categorical [date_frame] 0 NoSelection (Single ''price'') NoSelection) = Inr 2"
    by code_simp
  have r2: "fst (numericalize_categories [date_frame] 0 0 NoSelection) = Inr (1, [])"
    by code_simp
  have r3: "fst (interpolate_missing_values [date_frame] 0 NoSelection) = Inr (1, [(''price'', Some 15)])"
    by code_simp
  have r4: "fst (extract_date_features example_calendar [date_frame] 0 (Single ''SaleDate'') False True) = Inr 2"
    by code_simp
  show ?thesis
    using len r1 r2 r3 r4
      input_frame_unchanged [OF len, where ord = NoSelection
        and drp = "Single ''price''" and skp = NoSelection and maxc = 0 and cal = example_calendar
        and feats = "Single ''SaleDate''" and time = False and drop_flag = True]
    by blast
qed

subsection \<open>What the conversion does to a text column\<close>

lemma convert_to_categorical_run:
  assumes "convert_to_categorical s a ord drp skp = (Inr r, s')"
  shows "\<exists>t. drop_columns (s ! a) (normalize drp) = Inr t \<and>
             for_each (convert_feature (normalize ord) (normalize skp)) (names t)
               (s @ [s ! a, t]) (Suc (length s)) = (Inr r, s')"
proof (cases "drop_columns (s ! a) (normalize drp)")
  case (Inl e)
  with assms show ?thesis
    by (simp add: convert_to_categorical_def frame_copy_def allocate_def frame_drop_def)
next
  case (Inr t)
  with assms show ?thesis
    by (simp add: convert_to_categorical_def frame_copy_def allocate_def frame_drop_def nth_append)
qed

lemma convert_feature_step:
  assumes "convert_feature ord skp f s df = (Inr y, s')" and "df < length s"
  shows "y = df \<and> length s' = length s \<and>
         (\<forall>c. c \<noteq> f \<longrightarrow> getitem (s' ! df) c = getitem (s ! df) c) \<and>
         (\<forall>xs. getitem (s ! df) f = Inr (Object xs) \<longrightarrow>
            getitem (s' ! df) f =
              (if f \<in> set skp then Inr (Object xs)
               else Inr (if f \<in> set ord then as_ordered (astype_category (Object xs))
                         else astype_category (Object xs)))) \<and>
         (\<forall>col. getitem (s ! df) f = Inr col \<longrightarrow> \<not> is_string_dtype col \<longrightarrow>
            getitem (s' ! df) f = Inr col)"
  using assms
  by (auto simp: convert_feature_def Let_def split: if_splits sum.splits)

lemma convert_loop_column:
  assumes run: "for_each (convert_feature ord skp) fs s df = (Inr r, s')"
    and df: "df < length s"
    and col: "getitem (s ! df) c = Inr (Object xs)"
    and c: "c \<in> set fs"
  shows "r = df \<and> getitem (s' ! r) c =
           (if c \<in> set skp then Inr (Object xs)
            else Inr (if c \<in> set ord then as_ordered (astype_category (Object xs))
                      else astype_category (Object xs)))"
proof -
  let ?done = "(if c \<in> set skp then Inr (Object xs)
            else Inr (if c \<in> set ord then as_ordered (astype_category (Object xs))
                      else astype_category (Object xs)))"
  let ?I = "\<lambda>pre s1 x. x = df \<and> df < length s1 \<and>
              getitem (s1 ! df) c = (if c \<in> set pre then ?done else Inr (Object xs))"
  have "?I fs s' r"
  proof (rule for_each_invariant [where I = ?I, OF run])
    show "?I [] s df" using df col by simp
  next
    fix pre f post s1 x y s2
    assume inv: "?I pre s1 x" and step: "convert_feature ord skp f s1 x = (Inr y, s2)"
    from inv have x: "x = df" and df1: "df < length s1" by simp_all
    note st = convert_feature_step [OF step [unfolded x] df1]
    show "?I (pre @ [f]) s2 y"
    proof (cases "f = c")
      case False
      with st inv show ?thesis by simp
    next
      case True
      show ?thesis
      proof (cases "c \<in> set pre")
        case False
        with inv have "getitem (s1 ! df) f = Inr (Object xs)" using True by simp
        with st True df1 show ?thesis by simp
      next
        case pre: True
        show ?thesis
        proof (cases "c \<in> set skp")
          case True
          with inv pre st df1 \<open>f = c\<close> show ?thesis by simp
        next
          case False
          with inv pre have g: "getitem (s1 ! df) f =
              Inr (if c \<in> set ord then as_ordered (astype_category (Object xs))
                         else astype_category (Object xs))"
            using \<open>f = c\<close> by simp
          have "\<not> is_string_dtype (if c \<in> set ord then as_ordered (astype_category (Object xs))
                         else astype_category (Object xs))"
            by (simp add: Let_def)
          with st g False pre df1 \<open>f = c\<close> show ?thesis by simp
        qed
      qed
    qed
  qed
  with c show ?thesis by simp
qed

text \<open>
  C6: for a frame whose column names are distinct, in the output of \<^verbatim>\<open>convert_to_categorical\<close>
  a text column of the input that is neither dropped nor skipped is categorical, with the
  distinct values present as categories and one code per row; it is ordered exactly when its
  name is in the ordinal set. A text column in the skip set is the text column it was.
\<close>

theorem convert_to_categorical_text_columns:
  assumes "convert_to_categorical s data_frame ordinal_categorical_features drop_features skip_features
           = (Inr r, s')"
    and "distinct (names (s ! data_frame))"
    and "getitem (s ! data_frame) c = Inr (Object xs)"
    and "c \<notin> set (normalize drop_features)"
  shows "(c \<notin> set (normalize skip_features) \<longrightarrow>
            (\<exists>col. getitem (s' ! r) c = Inr col \<and> is_categorical_dtype col \<and>
                   (cat_ordered col \<longleftrightarrow> c \<in> set (normalize ordinal_categorical_features)) \<and>
                   cat_categories col = sort (remdups (present xs)) \<and>
                   cat_codes col = map (code_of (sort (remdups (present xs)))) xs)) \<and>
         (c \<in> set (normalize skip_features) \<longrightarrow> getitem (s' ! r) c = Inr (Object xs))"
proof -
  from convert_to_categorical_run [OF assms(1)] obtain t where
    t: "drop_columns (s ! data_frame) (normalize drop_features) = Inr t" and
    run: "for_each (convert_feature (normalize ordinal_categorical_features) (normalize skip_features))
            (names t) (s @ [s ! data_frame, t]) (Suc (length s)) = (Inr r, s')"
    by blast
  have col: "getitem ((s @ [s ! data_frame, t]) ! Suc (length s)) c = Inr (Object xs)"
    using drop_columns_getitem [OF t, of c] assms(3,4) by (simp add: nth_append)
  then have "getitem t c = Inr (Object xs)" by (simp add: nth_append)
  then have c: "c \<in> set (names t)" by (rule getitem_names)
  from convert_loop_column [OF run _ col c]
  show ?thesis by (auto simp: Let_def)
qed

theorem convert_to_categorical_text_columns_witness:
  "fst example_conversion = Inr 2 \<and>
   distinct (names ([example_frame] ! 0)) \<and>
   getitem ([example_frame] ! 0) ''col3'' = Inr (Object [Some ''Low'', Some ''Medium'', Some ''High'']) \<and>
   getitem ([example_frame] ! 0) ''col2'' = Inr (Object [Some ''a'', Some ''b'', Some ''a'']) \<and>
   (\<exists>col. getitem (snd example_conversion ! 2) ''col3'' = Inr col \<and> is_categorical_dtype col \<and>
          cat_ordered col \<and> cat_categories col = [''High'', ''Low'', ''Medium''] \<and>
          cat_codes col = [1, 2, 0]) \<and>
   getitem (snd example_conversion ! 2) ''col2'' = Inr (Object [Some ''a'', Some ''b'', Some ''a''])"
proof -
  have r: "fst example_conversion = Inr 2"
    by code_simp
  then have run: "convert_to_categorical [example_frame] 0 (Single ''col3'') (Single ''col1'') (Single ''col2'')
      = (Inr 2, snd example_conversion)"
    unfolding example_conversion_def by (metis prod.collapse)
  have dn: "distinct (names ([example_frame] ! 0))" by code_simp
  have g3: "getitem ([example_frame] ! 0) ''col3'' = Inr (Object [Some ''Low'', Some ''Medium'', Some ''High''])"
    by code_simp
  have g2: "getitem ([example_frame] ! 0) ''col2'' = Inr (Object [Some ''a'', Some ''b'', Some ''a''])"
    by code_simp
  have cats: "sort (remdups (present [Some ''Low'', Some ''Medium'', Some ''High''])) = [''High'', ''Low'', ''Medium'']"
    by code_simp
  have codes: "map (code_of [''High'', ''Low'', ''Medium'']) [Some ''Low'', Some ''Medium'', Some ''High''] = [1, 2, 0]"
    by code_simp
  have d3: "''col3'' \<notin> set (normalize (Single ''col1''))" and s3: "''col3'' \<notin> set (normalize (Single ''col2''))"
    and o3: "''col3'' \<in> set (normalize (Single ''col3''))"
    and d2: "''col2'' \<notin> set (normalize (Single ''col1''))" and s2: "''col2'' \<in> set (normalize (Single ''col2''))"
    by simp_all
  from convert_to_categorical_text_columns [OF run dn g3 d3] s3 o3
  have a: "\<exists>col. getitem (snd example_conversion ! 2) ''col3'' = Inr col \<and> is_categorical_dtype col \<and>
          cat_ordered col \<and> cat_categories col = [''High'', ''Low'', ''Medium''] \<and>
          cat_codes col = [1, 2, 0]"
    unfolding cats codes by blast
  from convert_to_categorical_text_columns [OF run dn g2 d2] s2
  have b: "getitem (snd example_conversion ! 2) ''col2'' = Inr (Object [Some ''a'', Some ''b'', Some ''a''])"
    by blast
  from r dn g3 g2 a b show ?thesis by blast
qed

section \<open>Date features\<close>

subsection \<open>The stem of a column name\<close>

lemma stem_date: "stem (p @ ''date'') = p" and stem_Date: "stem (p @ ''Date'') = p"
  by (simp_all add: stem_def Let_def)

lemma stem_cases:
  obtains (date) p d where "g = p @ d" and "stem g = p" and "d = ''Date'' \<or> d = ''date''"
  | (newline) p d where "g = p @ d" and "stem g = p @ [CHR 0x0A]"
      and "d = ''Date'' @ [CHR 0x0A] \<or> d = ''date'' @ [CHR 0x0A]"
  | (whole) "stem g = g"
proof -
  let ?n = "length g"
  define A where "A \<longleftrightarrow> 4 \<le> ?n \<and> drop (?n - 4) g \<in> {''Date'', ''date''}"
  define B where "B \<longleftrightarrow> 5 \<le> ?n \<and> drop (?n - 5) g \<in> {''Date'' @ [CHR 0x0A], ''date'' @ [CHR 0x0A]}"
  have st: "stem g = (if A then take (?n - 4) g else if B then take (?n - 5) g @ [CHR 0x0A] else g)"
    by (simp only: stem_def Let_def A_def B_def)
  show thesis
  proof (cases A)
    case True
    have "g = take (?n - 4) g @ drop (?n - 4) g" by simp
    moreover have "stem g = take (?n - 4) g" using True st by simp
    moreover have "drop (?n - 4) g = ''Date'' \<or> drop (?n - 4) g = ''date''"
      using True by (simp add: A_def)
    ultimately show ?thesis using date by blast
  next
    case False
    show ?thesis
    proof (cases B)
      case True
      have "g = take (?n - 5) g @ drop (?n - 5) g" by simp
      moreover have "stem g = take (?n - 5) g @ [CHR 0x0A]" using True False st by simp
      moreover have "drop (?n - 5) g = ''Date'' @ [CHR 0x0A] \<or> drop (?n - 5) g = ''date'' @ [CHR 0x0A]"
        using True by (simp add: B_def)
      ultimately show ?thesis using newline by blast
    next
      case nb: False
      with False st have "stem g = g" by simp
      then show ?thesis by (rule whole)
    qed
  qed
qed

lemma stem_derived_neq: "stem g @ ''_'' @ a \<noteq> g"
proof (cases g rule: stem_cases)
  case (date p d)
  then show ?thesis by auto
next
  case (newline p d)
  then show ?thesis by auto
next
  case whole
  then show ?thesis by simp
qed

lemma set_derived_names:
  "set (derived_names feats attrs) = {stem g @ ''_'' @ a | g a. g \<in> set feats \<and> a \<in> set attrs}"
  by (auto simp: derived_names_def)

lemma derived_names_append:
  "set (derived_names (pre @ [f]) attrs) = set (derived_names pre attrs) \<union> set (derived_names [f] attrs)"
  by (auto simp: derived_names_def)

subsection \<open>One date column\<close>

lemma dt_attr_numeric: "dt_attr cal attr col = Inr c \<Longrightarrow> is_numeric_dtype c"
  by (cases col) (auto simp: attr_values_def)

lemma extract_attr_step:
  assumes "extract_attr cal f name attr s df = (Inr y, s')" and "df < length s"
  shows "y = df \<and> length s' = length s \<and>
         (\<exists>c. is_numeric_dtype c \<and> s' ! df = setitem (s ! df) (name @ ''_'' @ attr) c)"
proof (cases "getitem (s ! df) f")
  case (Inl e)
  with assms show ?thesis by (simp add: extract_attr_def)
next
  case col: (Inr col)
  show ?thesis
  proof (cases "dt_attr cal attr col")
    case (Inl e)
    with col assms show ?thesis by (simp add: extract_attr_def)
  next
    case (Inr c)
    then have "is_numeric_dtype c" by (rule dt_attr_numeric)
    moreover have "y = df \<and> s' = frame_setitem s df (name @ ''_'' @ attr) c"
      using assms(1) col Inr by (auto simp: extract_attr_def)
    ultimately show ?thesis using assms(2) by auto
  qed
qed

lemma extract_attrs_loop:
  assumes run: "for_each (extract_attr cal f name) attrs s df = (Inr r, s')"
    and df: "df < length s"
  shows "r = df \<and> length s' = length s \<and>
         set (names (s' ! df)) = set (names (s ! df)) \<union> {name @ ''_'' @ a | a. a \<in> set attrs} \<and>
         (\<forall>a \<in> set attrs. \<exists>c. getitem (s' ! df) (name @ ''_'' @ a) = Inr c \<and> is_numeric_dtype c) \<and>
         (\<forall>n. n \<notin> {name @ ''_'' @ a | a. a \<in> set attrs} \<longrightarrow>
              getitem (s' ! df) n = getitem (s ! df) n)"
proof -
  let ?I = "\<lambda>pre s1 x. x = df \<and> length s1 = length s \<and>
         set (names (s1 ! df)) = set (names (s ! df)) \<union> {name @ ''_'' @ a | a. a \<in> set pre} \<and>
         (\<forall>a \<in> set pre. \<exists>c. getitem (s1 ! df) (name @ ''_'' @ a) = Inr c \<and> is_numeric_dtype c) \<and>
         (\<forall>n. n \<notin> {name @ ''_'' @ a | a. a \<in> set pre} \<longrightarrow>
              getitem (s1 ! df) n = getitem (s ! df) n)"
  have "?I attrs s' r"
  proof (rule for_each_invariant [where I = ?I, OF run])
    show "?I [] s df" by simp
  next
    fix pre a post s1 x y s2
    assume inv: "?I pre s1 x" and step: "extract_attr cal f name a s1 x = (Inr y, s2)"
    from inv have x: "x = df" and len: "length s1 = length s" by simp_all
    from extract_attr_step [OF step [unfolded x]] df len obtain c where
      y: "y = df" and len2: "length s2 = length s1" and c: "is_numeric_dtype c"
      and s2: "s2 ! df = setitem (s1 ! df) (name @ ''_'' @ a) c"
      by auto
    have names: "set (names (s2 ! df)) = set (names (s ! df)) \<union> {name @ ''_'' @ b | b. b \<in> set (pre @ [a])}"
      using inv s2 by auto
    have num: "\<forall>b \<in> set (pre @ [a]). \<exists>c. getitem (s2 ! df) (name @ ''_'' @ b) = Inr c \<and> is_numeric_dtype c"
      using inv s2 c by auto
    have rest: "\<forall>n. n \<notin> {name @ ''_'' @ b | b. b \<in> set (pre @ [a])} \<longrightarrow>
              getitem (s2 ! df) n = getitem (s ! df) n"
      using inv s2 by auto
    show "?I (pre @ [a]) s2 y"
    proof (intro conjI)
      show "y = df" by (rule y)
      show "length s2 = length s" using len len2 by simp
      show "set (names (s2 ! df)) = set (names (s ! df)) \<union> {name @ ''_'' @ b | b. b \<in> set (pre @ [a])}"
        by (rule names)
      show "\<forall>b \<in> set (pre @ [a]). \<exists>c. getitem (s2 ! df) (name @ ''_'' @ b) = Inr c \<and> is_numeric_dtype c"
        by (rule num)
      show "\<forall>n. n \<notin> {name @ ''_'' @ b | b. b \<in> set (pre @ [a])} \<longrightarrow>
              getitem (s2 ! df) n = getitem (s ! df) n"
        by (rule rest)
    qed
  qed
  then show ?thesis by blast
qed

lemma astype_datetime64_source:
  "astype_datetime64 cal col = Inr c \<Longrightarrow> \<not> is_numeric_dtype col"
  by (cases col) auto

lemma issubdtype_datetime64_source:
  "issubdtype_datetime64 (case dtype_of col of DatetimeTZDtype tz \<Rightarrow> datetime64 | d \<Rightarrow> d) = Inr True
   \<Longrightarrow> \<not> is_numeric_dtype col"
  by (cases col) auto

lemma extract_feature_step:
  assumes run: "extract_feature cal attrs drop_flag f s df = (Inr y, s')" and df: "df < length s"
  shows "y < length s' \<and>
         (\<exists>col. getitem (s ! df) f = Inr col \<and> \<not> is_numeric_dtype col) \<and>
         set (names (s' ! y)) =
           (set (names (s ! df)) \<union> set (derived_names [f] attrs)) - (if drop_flag then {f} else {}) \<and>
         (\<forall>d \<in> set (derived_names [f] attrs). \<exists>c. getitem (s' ! y) d = Inr c \<and> is_numeric_dtype c) \<and>
         (\<forall>n. n \<noteq> f \<longrightarrow> n \<notin> set (derived_names [f] attrs) \<longrightarrow>
              getitem (s' ! y) n = getitem (s ! df) n)"
proof (cases "getitem (s ! df) f")
  case (Inl e)
  with run show ?thesis by (simp add: extract_feature_def)
next
  case col: (Inr column)
  then have fin: "f \<in> set (names (s ! df))" by (rule getitem_names)
  show ?thesis
  proof (cases "issubdtype_datetime64
                  (case dtype_of column of DatetimeTZDtype tz \<Rightarrow> datetime64 | d \<Rightarrow> d)")
    case (Inl e)
    with col run show ?thesis by (simp add: extract_feature_def)
  next
    case isd: (Inr is_date)
    define cast where "cast = (if is_date then (Inr df, s)
                      else case astype_datetime64 cal column of
                             Inl e \<Rightarrow> (Inl e, s)
                           | Inr c \<Rightarrow> (Inr df, frame_setitem s df f c))"
    obtain r1 s1 where c1: "cast = (r1, s1)" by (cases cast)
    show ?thesis
    proof (cases r1)
      case (Inl e)
      with col isd c1 run show ?thesis
        by (simp add: extract_feature_def cast_def [symmetric])
    next
      case (Inr d)
      have s1: "d = df \<and> length s1 = length s \<and> \<not> is_numeric_dtype column \<and>
                set (names (s1 ! df)) = set (names (s ! df)) \<and>
                (\<forall>n. n \<noteq> f \<longrightarrow> getitem (s1 ! df) n = getitem (s ! df) n)"
      proof (cases is_date)
        case True
        with c1 Inr have "d = df" "s1 = s" by (simp_all add: cast_def)
        moreover have "\<not> is_numeric_dtype column"
          using isd True by (intro issubdtype_datetime64_source) simp
        ultimately show ?thesis by simp
      next
        case False
        with c1 Inr obtain c where c: "astype_datetime64 cal column = Inr c"
          and "d = df" and s1: "s1 = frame_setitem s df f c"
          by (auto simp: cast_def split: sum.splits)
        moreover have "\<not> is_numeric_dtype column"
          using c by (rule astype_datetime64_source)
        ultimately show ?thesis using df fin by auto
      qed
      then have df1: "df < length s1" using df by simp
      obtain r2 s2 where loop: "for_each (extract_attr cal f (stem f)) attrs s1 df = (r2, s2)"
        by (cases "for_each (extract_attr cal f (stem f)) attrs s1 df")
      have res: "(Inr y, s') = (case r2 of Inl e \<Rightarrow> (Inl e, s2)
                   | Inr df' \<Rightarrow> if drop_flag then frame_drop s2 df' [f] else (Inr df', s2))"
        using col isd c1 Inr s1 loop run
        by (simp add: extract_feature_def cast_def [symmetric])
      then obtain r where r2: "r2 = Inr r"
        by (cases r2) simp_all
      note lp = extract_attrs_loop [OF loop [unfolded r2] df1]
      have D: "set (derived_names [f] attrs) = {stem f @ ''_'' @ a | a. a \<in> set attrs}"
        by (auto simp: derived_names_def)
      from lp have r: "r = df" and len2: "length s2 = length s1"
        and names2: "set (names (s2 ! df)) = set (names (s ! df)) \<union> set (derived_names [f] attrs)"
        and num2: "\<forall>d \<in> set (derived_names [f] attrs). \<exists>c. getitem (s2 ! df) d = Inr c \<and> is_numeric_dtype c"
        and rest2: "\<forall>n. n \<noteq> f \<longrightarrow> n \<notin> set (derived_names [f] attrs) \<longrightarrow>
              getitem (s2 ! df) n = getitem (s ! df) n"
        using s1 unfolding D by auto
      have nf: "f \<notin> set (derived_names [f] attrs)"
        unfolding D using stem_derived_neq [of f] by (auto dest: sym)
      show ?thesis
      proof (cases drop_flag)
        case False
        with res r2 r have "y = df" "s' = s2" by simp_all
        with s1 len2 df names2 num2 rest2 False col show ?thesis by auto
      next
        case True
        with res r2 r have "frame_drop s2 df [f] = (Inr y, s')" by simp
        then obtain t where t: "drop_columns (s2 ! df) [f] = Inr t"
          and y: "y = length s2" and s': "s' = s2 @ [t]"
          by (auto simp: frame_drop_Inr)
        have out: "s' ! y = t" using y s' by simp
        have n: "set (names t) = (set (names (s ! df)) \<union> set (derived_names [f] attrs)) - {f}"
          using drop_columns_names [OF t] names2 by simp
        have g: "getitem t n = (if n = f then Inl KeyError else getitem (s2 ! df) n)" for n
          using drop_columns_getitem [OF t, of n] by simp
        have "\<forall>d \<in> set (derived_names [f] attrs). \<exists>c. getitem t d = Inr c \<and> is_numeric_dtype c"
          using num2 nf g by auto
        moreover have "\<forall>n. n \<noteq> f \<longrightarrow> n \<notin> set (derived_names [f] attrs) \<longrightarrow>
              getitem t n = getitem (s ! df) n"
          using rest2 g by simp
        ultimately show ?thesis
          using out n True s1 col y s' by auto
      qed
    qed
  qed
qed

subsection \<open>All date columns\<close>

lemma extract_date_features_run:
  assumes "extract_date_features cal s a feats time drop_flag = (Inr r, s')"
  shows "for_each (extract_feature cal (attrs_for time) drop_flag) (normalize feats)
           (s @ [s ! a]) (length s) = (Inr r, s')"
  using assms
  by (cases feats) (simp_all add: extract_date_features_def frame_copy_def allocate_def)

lemma extract_loop:
  assumes run: "for_each (extract_feature cal attrs drop_flag) fs s df = (Inr r, s')"
    and df: "df < length s"
  shows "r < length s' \<and>
         set (names (s' ! r)) \<subseteq> set (names (s ! df)) \<union> set (derived_names fs attrs) \<and>
         (\<forall>d \<in> set (derived_names fs attrs). \<exists>c. getitem (s' ! r) d = Inr c \<and> is_numeric_dtype c) \<and>
         (\<forall>g \<in> set fs. if drop_flag
                         then g \<notin> set (names (s' ! r)) \<or> g \<in> set (derived_names fs attrs)
                         else g \<in> set (names (s' ! r)))"
proof -
  let ?I = "\<lambda>pre s1 x. x < length s1 \<and>
         set (names (s1 ! x)) \<subseteq> set (names (s ! df)) \<union> set (derived_names pre attrs) \<and>
         (\<forall>d \<in> set (derived_names pre attrs). \<exists>c. getitem (s1 ! x) d = Inr c \<and> is_numeric_dtype c) \<and>
         (\<forall>g \<in> set pre. if drop_flag
                         then g \<notin> set (names (s1 ! x)) \<or> g \<in> set (derived_names pre attrs)
                         else g \<in> set (names (s1 ! x)))"
  have "?I fs s' r"
  proof (rule for_each_invariant [where I = ?I, OF run])
    show "?I [] s df" using df by (simp add: derived_names_def)
  next
    fix pre f post s1 x y s2
    assume inv: "?I pre s1 x" and step: "extract_feature cal attrs drop_flag f s1 x = (Inr y, s2)"
    let ?T = "s1 ! x" and ?T' = "s2 ! y"
    let ?D = "set (derived_names pre attrs)" and ?F = "set (derived_names [f] attrs)"
    from inv have x: "x < length s1"
      and sub: "set (names ?T) \<subseteq> set (names (s ! df)) \<union> ?D"
      and num: "\<forall>d \<in> ?D. \<exists>c. getitem ?T d = Inr c \<and> is_numeric_dtype c"
      and old: "\<forall>g \<in> set pre. if drop_flag then g \<notin> set (names ?T) \<or> g \<in> ?D
                               else g \<in> set (names ?T)"
      by blast+
    from extract_feature_step [OF step x] obtain col where
      y: "y < length s2"
      and col: "getitem ?T f = Inr col" "\<not> is_numeric_dtype col"
      and names': "set (names ?T') = (set (names ?T) \<union> ?F) - (if drop_flag then {f} else {})"
      and num': "\<forall>d \<in> ?F. \<exists>c. getitem ?T' d = Inr c \<and> is_numeric_dtype c"
      and rest': "\<forall>n. n \<noteq> f \<longrightarrow> n \<notin> ?F \<longrightarrow> getitem ?T' n = getitem ?T n"
      by blast
    have app: "set (derived_names (pre @ [f]) attrs) = ?D \<union> ?F"
      by (rule derived_names_append)
    have fD: "f \<notin> ?D"
    proof
      assume "f \<in> ?D"
      with num obtain c where "getitem ?T f = Inr c" "is_numeric_dtype c" by blast
      with col show False by simp
    qed
    have fT: "f \<in> set (names ?T)" using col(1) by (rule getitem_names)
    have 1: "set (names ?T') \<subseteq> set (names (s ! df)) \<union> set (derived_names (pre @ [f]) attrs)"
      unfolding app names' using sub by auto
    have 2: "\<forall>d \<in> set (derived_names (pre @ [f]) attrs). \<exists>c. getitem ?T' d = Inr c \<and> is_numeric_dtype c"
      unfolding app
    proof
      fix d assume d: "d \<in> ?D \<union> ?F"
      show "\<exists>c. getitem ?T' d = Inr c \<and> is_numeric_dtype c"
      proof (cases "d \<in> ?F")
        case True
        with num' show ?thesis by blast
      next
        case False
        with d have dD: "d \<in> ?D" by simp
        with fD have "d \<noteq> f" by blast
        with False rest' have "getitem ?T' d = getitem ?T d" by simp
        with num dD show ?thesis by simp
      qed
    qed
    have 3: "\<forall>g \<in> set (pre @ [f]). if drop_flag
                 then g \<notin> set (names ?T') \<or> g \<in> set (derived_names (pre @ [f]) attrs)
                 else g \<in> set (names ?T')"
      unfolding app names' using old fT by auto
    show "?I (pre @ [f]) s2 y"
      using y 1 2 3 by (intro conjI)
  qed
  then show ?thesis by (intro conjI) blast+
qed

subsection \<open>The content of the derived columns\<close>











lemma is_datetime_not_numeric: "is_datetime c \<Longrightarrow> \<not> is_numeric_dtype c"
  by (cases c) simp_all







lemma suffix_conv_drop: "xs = p @ ys \<Longrightarrow> drop (length xs - length ys) xs = ys"
  by simp

lemma stem_newline:
  "stem (p @ ''date'' @ [CHR 0x0A]) = p @ [CHR 0x0A]"
  "stem (p @ ''Date'' @ [CHR 0x0A]) = p @ [CHR 0x0A]"
  by (simp_all add: stem_def Let_def)

lemma stem_whole:
  assumes "\<forall>p. g \<noteq> p @ ''date'' \<and> g \<noteq> p @ ''Date'' \<and>
               g \<noteq> p @ ''date'' @ [CHR 0x0A] \<and> g \<noteq> p @ ''Date'' @ [CHR 0x0A]"
  shows "stem g = g"
proof (cases g rule: stem_cases)
  case (date p d)
  with assms show ?thesis by blast
next
  case (newline p d)
  with assms show ?thesis by blast
next
  case whole
  then show ?thesis .
qed


subsection \<open>The derived columns of one date column\<close>




subsection \<open>The prefix of the derived columns\<close>

text \<open>
  C4, as the code has it: when \<^verbatim>\<open>extract_date_features\<close> returns on a frame with distinct column
  names, the columns derived from a processed column are named stem, underscore, attribute, and
  the stem is the column name without a trailing \<^verbatim>\<open>date\<close> or \<^verbatim>\<open>Date\<close>; when the name ends in a
  newline, the \<^verbatim>\<open>date\<close> or \<^verbatim>\<open>Date\<close> just before that newline is removed and the newline stays;
  every other name is its own stem. So the columns derived from \<^verbatim>\<open>SaleDate\<close> are prefixed
  \<^verbatim>\<open>Sale_\<close>, those derived from \<^verbatim>\<open>date\<close> are prefixed with the underscore alone, and those derived
  from \<^verbatim>\<open>SaleDATE\<close> are prefixed \<^verbatim>\<open>SaleDATE_\<close>.
\<close>

theorem extract_date_features_stem:
  assumes "extract_date_features cal s data_frame date_features time drop_flag = (Inr r, s')"
    and "distinct (names (s ! data_frame))"
    and "feature \<in> set (normalize date_features)"
    and "attr \<in> set (attrs_for time)"
  shows "stem feature @ ''_'' @ attr \<in> set (names (s' ! r)) \<and>
         (\<forall>p. feature = p @ ''date'' \<or> feature = p @ ''Date'' \<longrightarrow> stem feature = p) \<and>
         (\<forall>p. feature = p @ ''date'' @ [CHR 0x0A] \<or> feature = p @ ''Date'' @ [CHR 0x0A]
               \<longrightarrow> stem feature = p @ [CHR 0x0A]) \<and>
         ((\<forall>p. feature \<noteq> p @ ''date'' \<and> feature \<noteq> p @ ''Date'' \<and>
                feature \<noteq> p @ ''date'' @ [CHR 0x0A] \<and> feature \<noteq> p @ ''Date'' @ [CHR 0x0A])
            \<longrightarrow> stem feature = feature)"
proof -
  note loop = extract_loop [OF extract_date_features_run [OF assms(1)], simplified]
  have "stem feature @ ''_'' @ attr \<in> set (derived_names (normalize date_features) (attrs_for time))"
    using assms(3,4) unfolding set_derived_names by blast
  with loop obtain c where "getitem (s' ! r) (stem feature @ ''_'' @ attr) = Inr c" by blast
  then have n: "stem feature @ ''_'' @ attr \<in> set (names (s' ! r))" by (rule getitem_names)
  have d: "\<forall>p. feature = p @ ''date'' \<or> feature = p @ ''Date'' \<longrightarrow> stem feature = p"
    using stem_date stem_Date by blast
  have l: "\<forall>p. feature = p @ ''date'' @ [CHR 0x0A] \<or> feature = p @ ''Date'' @ [CHR 0x0A]
               \<longrightarrow> stem feature = p @ [CHR 0x0A]"
    using stem_newline by blast
  have w: "(\<forall>p. feature \<noteq> p @ ''date'' \<and> feature \<noteq> p @ ''Date'' \<and>
                feature \<noteq> p @ ''date'' @ [CHR 0x0A] \<and> feature \<noteq> p @ ''Date'' @ [CHR 0x0A])
            \<longrightarrow> stem feature = feature"
    using stem_whole by blast
  from n d l w show ?thesis by (intro conjI)
qed

theorem extract_date_features_stem_witness:
  "fst example_extraction = Inr 3 \<and>
   distinct (names date_frame) \<and>
   ''year'' \<in> set (attrs_for False) \<and>
   stem ''SaleDate'' = ''Sale'' \<and> ''Sale_year'' \<in> set (names (snd example_extraction ! 3)) \<and>
   stem ''date'' = [] \<and> ''_year'' \<in> set (names (snd example_extraction ! 3)) \<and>
   fst example_extraction_capitals = Inr 2 \<and>
   stem ''SaleDATE'' = ''SaleDATE'' \<and>
   ''SaleDATE_year'' \<in> set (names (snd example_extraction_capitals ! 2)) \<and>
   fst example_extraction_newline = Inr 2 \<and>
   stem (''Saledate'' @ [CHR 0x0A]) = ''Sale'' @ [CHR 0x0A] \<and>
   ''Sale'' @ [CHR 0x0A] @ ''_year'' \<in> set (names (snd example_extraction_newline ! 2))"
proof -
  have r: "fst example_extraction = Inr 3" by code_simp
  then have run: "extract_date_features example_calendar [date_frame] 0 (Several [''SaleDate'', ''date'']) False True
      = (Inr 3, snd example_extraction)"
    unfolding example_extraction_def by (metis prod.collapse)
  have rc: "fst example_extraction_capitals = Inr 2" by code_simp
  then have runc: "extract_date_features example_calendar [date_frame] 0 (Single ''SaleDATE'') False True
      = (Inr 2, snd example_extraction_capitals)"
    unfolding example_extraction_capitals_def by (metis prod.collapse)
  have rn: "fst example_extraction_newline = Inr 2" by code_simp
  then have runn: "extract_date_features example_calendar [newline_frame] 0
       (Single (''Saledate'' @ [CHR 0x0A])) False True
      = (Inr 2, snd example_extraction_newline)"
    unfolding example_extraction_newline_def by (metis prod.collapse)
  have dn: "distinct (names ([date_frame] ! 0))" by code_simp
  have dnn: "distinct (names ([newline_frame] ! 0))" by code_simp
  have m1: "''SaleDate'' \<in> set (normalize (Several [''SaleDate'', ''date'']))"
    and m2: "''date'' \<in> set (normalize (Several [''SaleDate'', ''date'']))"
    and m3: "''SaleDATE'' \<in> set (normalize (Single ''SaleDATE''))"
    and m4: "''Saledate'' @ [CHR 0x0A] \<in> set (normalize (Single (''Saledate'' @ [CHR 0x0A])))"
    by simp_all
  have y: "''year'' \<in> set (attrs_for False)" by (simp add: attrs_for_def date_attrs_def)
  have e1: "''SaleDate'' = ''Sale'' @ ''date'' \<or> ''SaleDate'' = ''Sale'' @ ''Date''" by simp
  have e2: "''date'' = [] @ ''date'' \<or> ''date'' = [] @ ''Date''" by simp
  have e3: "\<forall>p. ''SaleDATE'' \<noteq> p @ ''date'' \<and> ''SaleDATE'' \<noteq> p @ ''Date'' \<and>
                ''SaleDATE'' \<noteq> p @ ''date'' @ [CHR 0x0A] \<and> ''SaleDATE'' \<noteq> p @ ''Date'' @ [CHR 0x0A]"
  proof (intro allI conjI notI)
    fix p assume "''SaleDATE'' = p @ ''date''"
    from suffix_conv_drop [OF this] show False by simp
  next
    fix p assume "''SaleDATE'' = p @ ''Date''"
    from suffix_conv_drop [OF this] show False by simp
  next
    fix p assume "''SaleDATE'' = p @ ''date'' @ [CHR 0x0A]"
    from suffix_conv_drop [OF this] show False by simp
  next
    fix p assume "''SaleDATE'' = p @ ''Date'' @ [CHR 0x0A]"
    from suffix_conv_drop [OF this] show False by simp
  qed
  have e4: "''Saledate'' @ [CHR 0x0A] = ''Sale'' @ ''date'' @ [CHR 0x0A] \<or>
            ''Saledate'' @ [CHR 0x0A] = ''Sale'' @ ''Date'' @ [CHR 0x0A]" by simp
  note t1 = extract_date_features_stem [OF run dn m1 y]
  note t2 = extract_date_features_stem [OF run dn m2 y]
  note t3 = extract_date_features_stem [OF runc dn m3 y]
  note t4 = extract_date_features_stem [OF runn dnn m4 y]
  from t1 e1 have s1: "stem ''SaleDate'' = ''Sale''" by blast
  from t1 have a1: "''Sale_year'' \<in> set (names (snd example_extraction ! 3))"
    unfolding s1 by simp
  from t2 e2 have s2: "stem ''date'' = []" by blast
  from t2 have a2: "''_year'' \<in> set (names (snd example_extraction ! 3))"
    unfolding s2 by simp
  from t3 e3 have s3: "stem ''SaleDATE'' = ''SaleDATE''" by blast
  from t3 have a3: "''SaleDATE_year'' \<in> set (names (snd example_extraction_capitals ! 2))"
    unfolding s3 by simp
  from t4 e4 have s4: "stem (''Saledate'' @ [CHR 0x0A]) = ''Sale'' @ [CHR 0x0A]" by blast
  from t4 have a4: "''Sale'' @ [CHR 0x0A] @ ''_year'' \<in> set (names (snd example_extraction_newline ! 2))"
    unfolding s4 by simp
  from dn have dn': "distinct (names date_frame)" by simp
  from r dn' y s1 a1 s2 a2 rc s3 a3 rn s4 a4 show ?thesis by (intro conjI)
qed

text \<open>
  The suffix is not matched in every casing: a column named \<^verbatim>\<open>SaleDATE\<close> keeps its whole name
  as stem, and its derived columns are prefixed \<^verbatim>\<open>SaleDATE_\<close>, not \<^verbatim>\<open>Sale_\<close>.
\<close>

theorem extract_date_features_stem_counterexample:
  "fst example_extraction_capitals = Inr 2 \<and>
   stem ''SaleDATE'' = ''SaleDATE'' \<and>
   ''SaleDATE_year'' \<in> set (names (snd example_extraction_capitals ! 2)) \<and>
   ''Sale_year'' \<notin> set (names (snd example_extraction_capitals ! 2))"
  by code_simp

section \<open>Numericalization\<close>

subsection \<open>Taking rows of a column\<close>

lemma col_length_take_rows [simp]: "col_length (take_rows ps c) = length ps"
  by (cases c) simp_all

lemma take_rows_all: "col_length c = n \<Longrightarrow> take_rows [0..<n] c = c"
  by (cases c) (auto simp: map_nth)

lemma take_rows_take_rows:
  "\<forall>p \<in> set ps2. p < length ps1 \<Longrightarrow>
   take_rows ps2 (take_rows ps1 c) = take_rows (map (\<lambda>p. ps1 ! p) ps2) c"
  by (cases c) simp_all

subsection \<open>The rows of a join\<close>

lemma join_rows_bounds:
  "(i, j) \<in> set (join_rows left right) \<Longrightarrow> i < length left \<and> j < length right \<and> right ! j = left ! i"
  by (auto simp: join_rows_def partners_def)

lemma filter_eq_upt: "filter (\<lambda>j. j = i) [a..<b] = (if a \<le> i \<and> i < b then [i] else [])"
  by (induction b) auto

lemma partners_distinct:
  assumes "distinct idx" and "i < length idx"
  shows "partners idx (idx ! i) = [i]"
proof -
  have "filter (\<lambda>j. idx ! j = idx ! i) [0..<length idx] = filter (\<lambda>j. j = i) [0..<length idx]"
    using assms by (intro filter_cong) (auto simp: nth_eq_iff_index_eq)
  then show ?thesis using assms(2) by (simp add: partners_def filter_eq_upt)
qed

lemma join_rows_distinct:
  assumes "distinct idx"
  shows "join_rows idx idx = map (\<lambda>i. (i, i)) [0..<length idx]"
proof -
  have "map (\<lambda>i. map (\<lambda>j. (i, j)) (partners idx (idx ! i))) [0..<length idx]
        = map (\<lambda>i. [(i, i)]) [0..<length idx]"
    using assms by (intro map_cong) (auto simp: partners_distinct)
  then have "join_rows idx idx = concat (map (\<lambda>i. [(i, i)]) [0..<length idx])"
    unfolding join_rows_def by (rule arg_cong)
  then show ?thesis by simp
qed

lemma join_Inr:
  assumes "join left right = Inr t"
  shows "set (names left) \<inter> set (names right) = {} \<and>
         index t = map (\<lambda>(i, j). index left ! i) (join_rows (index left) (index right)) \<and>
         columns t =
           map (\<lambda>(n, c). (n, take_rows (map fst (join_rows (index left) (index right))) c)) (columns left) @
           map (\<lambda>(n, c). (n, take_rows (map snd (join_rows (index left) (index right))) c)) (columns right)"
  using assms by (auto simp: join_def Let_def split: if_splits)

lemma map_of_map_values:
  "map_of (map (\<lambda>(n, c). (n, f c)) al) k = map_option f (map_of al k)"
  by (induction al) auto

lemma getitem_join:
  assumes "join left right = Inr t"
  shows "getitem t n =
           (case getitem left n of
              Inr c \<Rightarrow> Inr (take_rows (map fst (join_rows (index left) (index right))) c)
            | Inl e \<Rightarrow> (case getitem right n of
                Inr c \<Rightarrow> Inr (take_rows (map snd (join_rows (index left) (index right))) c)
              | Inl e \<Rightarrow> Inl KeyError))"
  using join_Inr [OF assms]
  by (auto simp: getitem_def map_of_append map_add_def map_of_map_values split: option.splits)

lemma names_join:
  assumes "join left right = Inr t"
  shows "names t = names left @ names right"
  using join_Inr [OF assms] by (auto simp: names_def)

subsection \<open>The indicator frame\<close>

lemma names_get_dummies:
  "names (get_dummies idx (Category cats ord codes) g) = map (\<lambda>v. g @ ''_'' @ v) cats"
proof -
  have "map (\<lambda>k. g @ ''_'' @ cats ! k) [0..<length cats] = map (\<lambda>v. g @ ''_'' @ v) (map (\<lambda>k. cats ! k) [0..<length cats])"
    by simp
  then show ?thesis
    by (simp add: names_def get_dummies_def comp_def map_nth)
qed

lemma index_get_dummies [simp]: "index (get_dummies idx col g) = idx"
  by (simp add: get_dummies_def)

lemma getitem_get_dummies:
  assumes "distinct cats" and "k < length cats"
  shows "getitem (get_dummies idx (Category cats ord codes) g) (g @ ''_'' @ cats ! k)
         = Inr (Integer (indicator codes k))"
proof -
  let ?D = "get_dummies idx (Category cats ord codes) g"
  have "distinct (map fst (columns ?D))"
    using names_get_dummies [of idx cats ord codes g] assms(1)
    by (simp add: names_def distinct_map inj_on_def)
  moreover have "(g @ ''_'' @ cats ! k, Integer (indicator codes k)) \<in> set (columns ?D)"
    using assms(2) by (auto simp: get_dummies_def)
  ultimately have "map_of (columns ?D) (g @ ''_'' @ cats ! k) = Some (Integer (indicator codes k))"
    by (rule map_of_is_SomeI)
  then show ?thesis by (simp add: getitem_def)
qed

subsection \<open>One step of the loop\<close>

text \<open>The one-hot branch, spelled out: the frames it allocates and the frame it returns.\<close>

lemma numericalize_feature_cases:
  assumes step: "numericalize_feature maxc skp g S (df, m) = (Inr (df', m'), S')"
    and df: "df < length S"
  obtains (unchanged) "df' = df" and "S' = S" and "m' = m"
      and "g \<in> set skp \<or> (\<exists>col. getitem (S ! df) g = Inr col \<and> \<not> is_categorical_dtype col)"
  | (codes) cats ord codes where "g \<notin> set skp"
      and "getitem (S ! df) g = Inr (Category cats ord codes)"
      and "int (length cats) > maxc"
      and "df' = df" and "S' = frame_setitem S df g (Integer (map (\<lambda>c. c + 1) codes))"
      and "m' = AList.update g (Coded (enumerate_dict cats)) m"
  | (one_hot) cats ord codes t1 t' where "g \<notin> set skp"
      and "getitem (S ! df) g = Inr (Category cats ord codes)"
      and "\<not> int (length cats) > maxc"
      and "drop_columns (S ! df) [g] = Inr t1"
      and "join t1 (get_dummies (index (S ! df)) (Category cats ord codes) g) = Inr t'"
      and "df' < length S'" and "S' ! df' = t'"
      and "m' = AList.update g OneHot m"
proof (cases "g \<in> set skp")
  case True
  with step have "df' = df" "S' = S" "m' = m" by (auto simp: numericalize_feature_def)
  with True show ?thesis using unchanged by blast
next
  case nskip: False
  show ?thesis
  proof (cases "getitem (S ! df) g")
    case (Inl e)
    with nskip step show ?thesis by (simp add: numericalize_feature_def)
  next
    case col: (Inr col)
    show ?thesis
    proof (cases col)
      case (Category cats ord codes)
      show ?thesis
      proof (cases "int (length cats) > maxc")
        case True
        with nskip col Category step have "df' = df"
          "S' = frame_setitem S df g (Integer (map (\<lambda>c. c + 1) codes))"
          "m' = AList.update g (Coded (enumerate_dict cats)) m"
          by (auto simp: numericalize_feature_def)
        with nskip col Category True show ?thesis using codes by blast
      next
        case False
        let ?D = "get_dummies (index (S ! df)) (Category cats ord codes) g"
        let ?S1 = "S @ [?D]"
        have S1df: "?S1 ! df = S ! df" using df by (simp add: nth_append)
        from nskip col Category False step
        have st: "(case frame_drop ?S1 df [g] of
                (Inl e, s) \<Rightarrow> (Inl e, s)
              | (Inr df2, s) \<Rightarrow>
                  case frame_join s df2 (length S) of
                    (Inl e, s) \<Rightarrow> (Inl e, s)
                  | (Inr df3, s) \<Rightarrow> (Inr (df3, AList.update g OneHot m), s))
              = (Inr (df', m'), S')"
          by (simp add: numericalize_feature_def allocate_def)
        show ?thesis
        proof (cases "drop_columns (S ! df) [g]")
          case (Inl e)
          with st S1df show ?thesis by (simp add: frame_drop_def)
        next
          case t1: (Inr t1)
          let ?S2 = "?S1 @ [t1]"
          have dr: "frame_drop ?S1 df [g] = (Inr (length ?S1), ?S2)"
            using t1 S1df by (simp add: frame_drop_def allocate_def)
          have l: "?S2 ! (length ?S1) = t1" by (simp add: nth_append)
          have r: "?S2 ! (length S) = ?D" by (simp add: nth_append)
          from st dr have st2: "(case frame_join ?S2 (length ?S1) (length S) of
                    (Inl e, s) \<Rightarrow> (Inl e, s)
                  | (Inr df3, s) \<Rightarrow> (Inr (df3, AList.update g OneHot m), s))
              = (Inr (df', m'), S')"
            by simp
          show ?thesis
          proof (cases "join t1 ?D")
            case (Inl e)
            with st2 l r show ?thesis by (simp add: frame_join_def)
          next
            case t': (Inr t')
            then have "frame_join ?S2 (length ?S1) (length S) = (Inr (length ?S2), ?S2 @ [t'])"
              using l r by (simp add: frame_join_def allocate_def)
            with st2 have "df' = length ?S2" "S' = ?S2 @ [t']" "m' = AList.update g OneHot m"
              by auto
            then have "df' < length S'" "S' ! df' = t'" by (simp_all add: nth_append)
            with nskip col Category False t1 t' \<open>m' = AList.update g OneHot m\<close>
            show ?thesis using one_hot by blast
          qed
        qed
      qed
    qed (use nskip col step in \<open>auto simp: numericalize_feature_def intro: unchanged\<close>)
  qed
qed

text \<open>
  What a step for the column \<open>g\<close> does to the rest of the frame: every other column is the same
  column with its rows taken at the positions \<open>rows\<close>, which are all the rows in their order
  when the labels of the index are distinct.
\<close>

lemma numericalize_feature_other:
  assumes step: "numericalize_feature maxc skp g S (df, m) = (Inr (df', m'), S')"
    and df: "df < length S"
  shows "df' < length S' \<and>
    (\<exists>rows. (\<forall>r \<in> set rows. r < length (index (S ! df))) \<and>
       index (S' ! df') = map (\<lambda>r. index (S ! df) ! r) rows \<and>
       (distinct (index (S ! df)) \<longrightarrow> rows = [0..<length (index (S ! df))]) \<and>
       (\<forall>n c. n \<noteq> g \<longrightarrow> getitem (S ! df) n = Inr c \<longrightarrow> col_length c = length (index (S ! df)) \<longrightarrow>
          getitem (S' ! df') n = Inr (take_rows rows c))) \<and>
    set (names (S ! df)) - {g} \<subseteq> set (names (S' ! df')) \<and>
    set (names (S' ! df')) \<subseteq> set (names (S ! df)) \<union> {g @ ''_'' @ v | v. True} \<and>
    (\<forall>n. n \<noteq> g \<longrightarrow> map_of m' n = map_of m n)"
proof -
  let ?T = "S ! df" and ?T' = "S' ! df'"
  let ?N = "length (index ?T)"
  let ?same = "\<lambda>rows. (\<forall>r \<in> set rows. r < ?N) \<and>
       index ?T' = map (\<lambda>r. index ?T ! r) rows \<and>
       (distinct (index ?T) \<longrightarrow> rows = [0..<?N]) \<and>
       (\<forall>n c. n \<noteq> g \<longrightarrow> getitem ?T n = Inr c \<longrightarrow> col_length c = ?N \<longrightarrow>
          getitem ?T' n = Inr (take_rows rows c))"
  from step df show ?thesis
  proof (cases rule: numericalize_feature_cases)
    case unchanged
    then have "?same [0..<?N]" by (simp add: map_nth take_rows_all)
    then have "\<exists>rows. ?same rows" ..
    with unchanged df show ?thesis by auto
  next
    case (codes cats ord codes)
    then have T': "?T' = setitem ?T g (Integer (map (\<lambda>c. c + 1) codes))" using df by simp
    have "g \<in> set (names ?T)" using codes(2) by (rule getitem_names)
    then have n: "set (names ?T') = set (names ?T)" unfolding T' by auto
    have "?same [0..<?N]" unfolding T' by (simp add: map_nth take_rows_all)
    then have "\<exists>rows. ?same rows" ..
    moreover have "\<forall>n. n \<noteq> g \<longrightarrow> map_of m' n = map_of m n"
      using codes(6) by (simp add: update_conv')
    ultimately show ?thesis using n codes(4) df codes(5) by auto
  next
    case (one_hot cats ord codes t1 t')
    let ?D = "get_dummies (index ?T) (Category cats ord codes) g"
    let ?jr = "join_rows (index ?T) (index ?T)"
    have i1: "index t1 = index ?T" using one_hot(4) by (rule drop_columns_index)
    note j = join_Inr [OF one_hot(5), unfolded i1 index_get_dummies]
    have idx: "index t' = map (\<lambda>r. index ?T ! r) (map fst ?jr)"
      using j by (simp add: case_prod_unfold comp_def)
    have bnd: "\<forall>r \<in> set (map fst ?jr). r < ?N"
      using join_rows_bounds [of _ _ "index ?T" "index ?T"] by auto
    have dist: "distinct (index ?T) \<longrightarrow> map fst ?jr = [0..<?N]"
      by (auto simp: join_rows_distinct comp_def map_nth)
    have cols: "\<forall>n c. n \<noteq> g \<longrightarrow> getitem ?T n = Inr c \<longrightarrow> col_length c = ?N \<longrightarrow>
          getitem t' n = Inr (take_rows (map fst ?jr) c)"
      using getitem_join [OF one_hot(5), unfolded i1 index_get_dummies]
        drop_columns_getitem [OF one_hot(4)]
      by simp
    have "?same (map fst ?jr)"
      using idx bnd dist cols one_hot(7) by simp
    then have 1: "\<exists>rows. ?same rows" ..
    have nm: "set (names t') = (set (names ?T) - {g}) \<union> set (map (\<lambda>v. g @ ''_'' @ v) cats)"
      using names_join [OF one_hot(5)] drop_columns_names [OF one_hot(4)]
      by (simp add: names_get_dummies)
    have 2: "set (names ?T) - {g} \<subseteq> set (names ?T')"
      and 3: "set (names ?T') \<subseteq> set (names ?T) \<union> {g @ ''_'' @ v | v. True}"
      using nm one_hot(7) by auto
    have 4: "\<forall>n. n \<noteq> g \<longrightarrow> map_of m' n = map_of m n"
      using one_hot(8) by (simp add: update_conv')
    show ?thesis using one_hot(6) 1 2 3 4 by blast
  qed
qed

lemma map_nth_upt: "map (\<lambda>i. f (xs ! i)) [0..<length xs] = map f xs"
  by (rule nth_equalityI) auto

text \<open>What the step for a categorical column does to that column.\<close>

lemma numericalize_feature_own:
  assumes step: "numericalize_feature maxc skp c S (df, m) = (Inr (df', m'), S')"
    and df: "df < length S"
    and col: "getitem (S ! df) c = Inr (Category cats ord cur)"
    and nskip: "c \<notin> set skp"
    and dc: "distinct cats"
    and len: "length cur = length (index (S ! df))"
  shows "df' < length S' \<and> set (names (S ! df)) - {c} \<subseteq> set (names (S' ! df')) \<and>
     (\<exists>rows. length rows = length (index (S' ! df')) \<and> (\<forall>r \<in> set rows. r < length cur) \<and>
        (distinct (index (S ! df)) \<longrightarrow> rows = [0..<length cur] \<and> index (S' ! df') = index (S ! df)) \<and>
        (if int (length cats) > maxc
         then getitem (S' ! df') c = Inr (Integer (map (\<lambda>r. cur ! r + 1) rows)) \<and>
              map_of m' c = Some (Coded (enumerate_dict cats))
         else (\<forall>k < length cats.
                 getitem (S' ! df') (c @ ''_'' @ cats ! k)
                   = Inr (Integer (map (\<lambda>r. if cur ! r = int k then 1 else 0) rows)) \<and>
                 c @ ''_'' @ cats ! k \<notin> set (names (S ! df)) - {c}) \<and>
              map_of m' c = Some OneHot \<and> c \<notin> set (names (S' ! df'))))"
proof -
  let ?T = "S ! df" and ?T' = "S' ! df'"
  let ?N = "length (index ?T)"
  from step df show ?thesis
  proof (cases rule: numericalize_feature_cases)
    case unchanged
    with col nskip show ?thesis by auto
  next
    case (codes cats' ord' codes')
    with col have eq: "cats' = cats" "codes' = cur" by simp_all
    have T': "?T' = setitem ?T c (Integer (map (\<lambda>c. c + 1) cur))"
      using codes(4,5) df eq by simp
    have big: "int (length cats) > maxc" using codes(3) eq by simp
    have "length [0..<length cur] = length (index ?T') \<and> (\<forall>r \<in> set [0..<length cur]. r < length cur) \<and>
        (distinct (index ?T) \<longrightarrow> [0..<length cur] = [0..<length cur] \<and> index ?T' = index ?T) \<and>
        getitem ?T' c = Inr (Integer (map (\<lambda>r. cur ! r + 1) [0..<length cur])) \<and>
        map_of m' c = Some (Coded (enumerate_dict cats))"
    proof (intro conjI)
      show "length [0..<length cur] = length (index ?T')" unfolding T' using len by simp
      show "\<forall>r \<in> set [0..<length cur]. r < length cur" by simp
      show "distinct (index ?T) \<longrightarrow> [0..<length cur] = [0..<length cur] \<and> index ?T' = index ?T"
        unfolding T' by simp
      show "getitem ?T' c = Inr (Integer (map (\<lambda>r. cur ! r + 1) [0..<length cur]))"
        unfolding T' using map_nth_upt [of "\<lambda>c. c + 1" cur] by simp
      show "map_of m' c = Some (Coded (enumerate_dict cats))"
        using codes(6) eq by (simp add: update_conv')
    qed
    then have "\<exists>rows. length rows = length (index ?T') \<and> (\<forall>r \<in> set rows. r < length cur) \<and>
        (distinct (index ?T) \<longrightarrow> rows = [0..<length cur] \<and> index ?T' = index ?T) \<and>
        getitem ?T' c = Inr (Integer (map (\<lambda>r. cur ! r + 1) rows)) \<and>
        map_of m' c = Some (Coded (enumerate_dict cats))"
      by blast
    moreover have "df' < length S'" using codes(4,5) df by simp
    moreover have "set (names ?T) - {c} \<subseteq> set (names ?T')" unfolding T' by auto
    ultimately show ?thesis using big by simp
  next
    case (one_hot cats' ord' codes' t1 t')
    with col have eq: "cats' = cats" "codes' = cur" "ord' = ord" by simp_all
    note oh = one_hot [unfolded eq]
    let ?D = "get_dummies (index ?T) (Category cats ord cur) c"
    let ?jr = "join_rows (index ?T) (index ?T)"
    let ?rows = "map snd ?jr"
    have small: "\<not> int (length cats) > maxc" by (rule oh(3))
    have i1: "index t1 = index ?T" using oh(4) by (rule drop_columns_index)
    note j = join_Inr [OF oh(5), unfolded i1 index_get_dummies]
    have n1: "set (names t1) = set (names ?T) - {c}"
      using drop_columns_names [OF oh(4)] by simp
    have disj: "set (names t1) \<inter> set (map (\<lambda>v. c @ ''_'' @ v) cats) = {}"
      using j by (simp add: names_get_dummies)
    have nm: "set (names t') = (set (names ?T) - {c}) \<union> set (map (\<lambda>v. c @ ''_'' @ v) cats)"
      using names_join [OF oh(5)] n1 by (simp add: names_get_dummies)
    have idx: "index t' = map (\<lambda>r. index ?T ! r) (map fst ?jr)"
      using j by (simp add: case_prod_unfold comp_def)
    have l: "length ?rows = length (index t')" using idx by simp
    have bnd: "\<forall>r \<in> set ?rows. r < length cur"
      using join_rows_bounds [of _ _ "index ?T" "index ?T"] len by auto
    have dist: "distinct (index ?T) \<longrightarrow> ?rows = [0..<length cur] \<and> index t' = index ?T"
      using len idx by (auto simp: join_rows_distinct comp_def map_nth)
    have ind: "\<forall>k < length cats.
                 getitem t' (c @ ''_'' @ cats ! k)
                   = Inr (Integer (map (\<lambda>r. if cur ! r = int k then 1 else 0) ?rows)) \<and>
                 c @ ''_'' @ cats ! k \<notin> set (names ?T) - {c}"
    proof (intro allI impI)
      fix k assume k: "k < length cats"
      let ?n = "c @ ''_'' @ cats ! k"
      have inD: "?n \<in> set (map (\<lambda>v. c @ ''_'' @ v) cats)" using k by auto
      with disj have out: "?n \<notin> set (names t1)" by blast
      then have g1: "getitem t1 ?n = Inl KeyError"
        by (cases "getitem t1 ?n") (auto dest: getitem_KeyError getitem_names)
      have g2: "getitem ?D ?n = Inr (Integer (indicator cur k))"
        using dc k by (rule getitem_get_dummies)
      have "getitem t' ?n = Inr (take_rows ?rows (Integer (indicator cur k)))"
        using getitem_join [OF oh(5), unfolded i1 index_get_dummies, of ?n] g1 g2 by simp
      moreover have "map (\<lambda>p. indicator cur k ! p) ?rows
                     = map (\<lambda>r. if cur ! r = int k then 1 else 0) ?rows"
        using bnd by (intro map_cong) (auto simp: indicator_def)
      ultimately show "getitem t' ?n = Inr (Integer (map (\<lambda>r. if cur ! r = int k then 1 else 0) ?rows)) \<and>
                 ?n \<notin> set (names ?T) - {c}"
        using out n1 by simp
    qed
    have cn: "c \<notin> set (names t')" unfolding nm by auto
    have mp: "map_of m' c = Some OneHot" using oh(8) by (simp add: update_conv')
    have "length ?rows = length (index ?T') \<and> (\<forall>r \<in> set ?rows. r < length cur) \<and>
        (distinct (index ?T) \<longrightarrow> ?rows = [0..<length cur] \<and> index ?T' = index ?T) \<and>
        (\<forall>k < length cats.
                 getitem ?T' (c @ ''_'' @ cats ! k)
                   = Inr (Integer (map (\<lambda>r. if cur ! r = int k then 1 else 0) ?rows)) \<and>
                 c @ ''_'' @ cats ! k \<notin> set (names ?T) - {c}) \<and>
              map_of m' c = Some OneHot \<and> c \<notin> set (names ?T')"
      unfolding oh(7) using l bnd dist ind mp cn by (intro conjI)
    then have "\<exists>rows. length rows = length (index ?T') \<and> (\<forall>r \<in> set rows. r < length cur) \<and>
        (distinct (index ?T) \<longrightarrow> rows = [0..<length cur] \<and> index ?T' = index ?T) \<and>
        (\<forall>k < length cats.
                 getitem ?T' (c @ ''_'' @ cats ! k)
                   = Inr (Integer (map (\<lambda>r. if cur ! r = int k then 1 else 0) rows)) \<and>
                 c @ ''_'' @ cats ! k \<notin> set (names ?T) - {c}) \<and>
              map_of m' c = Some OneHot \<and> c \<notin> set (names ?T')"
      by (rule exI [where x = ?rows])
    moreover have "set (names ?T) - {c} \<subseteq> set (names ?T')" unfolding oh(7) nm by auto
    ultimately show ?thesis using small oh(6) by simp
  qed
qed

subsection \<open>The loop, seen from one categorical column\<close>

text \<open>
  The rows of the output come from rows of the input: \<open>qs\<close> lists, for every row of the output,
  the row of the input whose entry of the column it carries. When the labels of the index are
  distinct these are all the rows, in their order.
\<close>

lemma numericalize_loop_column:
  assumes run: "for_each (numericalize_feature maxc skp) fs S0 (df0, m0) = (Inr (r, m), S')"
    and df0: "df0 < length S0"
    and dfs: "distinct fs"
    and sub: "set fs \<subseteq> set (names (S0 ! df0))"
    and col: "getitem (S0 ! df0) c = Inr (Category cats ord codes)"
    and len: "length codes = length (index (S0 ! df0))"
    and dc: "distinct cats"
    and cfs: "c \<in> set fs"
    and nskip: "c \<notin> set skp"
  shows "r < length S' \<and>
    (\<exists>qs. length qs = length (index (S' ! r)) \<and> (\<forall>q \<in> set qs. q < length codes) \<and>
       (distinct (index (S0 ! df0)) \<longrightarrow> qs = [0..<length codes] \<and> index (S' ! r) = index (S0 ! df0)) \<and>
       (if int (length cats) > maxc
        then getitem (S' ! r) c = Inr (Integer (map (\<lambda>q. codes ! q + 1) qs)) \<and>
             map_of m c = Some (Coded (enumerate_dict cats))
        else (\<forall>k < length cats. getitem (S' ! r) (c @ ''_'' @ cats ! k)
                = Inr (Integer (map (\<lambda>q. if codes ! q = int k then 1 else 0) qs))) \<and>
             map_of m c = Some OneHot \<and>
             (c \<notin> set (names (S' ! r)) \<or> (\<exists>d \<in> set fs. \<exists>v. c = d @ ''_'' @ v))))"
proof -
  let ?idx0 = "index (S0 ! df0)"
  define Q where "Q pre T mp qs \<longleftrightarrow>
      length qs = length (index T) \<and> (\<forall>q \<in> set qs. q < length codes) \<and>
      (distinct ?idx0 \<longrightarrow> qs = [0..<length codes] \<and> index T = ?idx0) \<and>
      (if c \<notin> set pre then getitem T c = Inr (Category cats ord (map (\<lambda>q. codes ! q) qs))
       else if int (length cats) > maxc
        then getitem T c = Inr (Integer (map (\<lambda>q. codes ! q + 1) qs)) \<and>
             map_of mp c = Some (Coded (enumerate_dict cats))
        else (\<forall>k < length cats. getitem T (c @ ''_'' @ cats ! k)
                = Inr (Integer (map (\<lambda>q. if codes ! q = int k then 1 else 0) qs)) \<and>
                (c @ ''_'' @ cats ! k \<in> set fs \<longrightarrow> c @ ''_'' @ cats ! k \<in> set pre)) \<and>
             map_of mp c = Some OneHot \<and>
             (c \<notin> set (names T) \<or> (\<exists>d \<in> set pre. \<exists>v. c = d @ ''_'' @ v)))"
    for pre :: "string list" and T :: table and mp :: category_mapper and qs :: "nat list"
  define I where "I pre S x \<longleftrightarrow>
      fst x < length S \<and>
      (\<forall>g \<in> set fs. g \<notin> set pre \<longrightarrow> g \<in> set (names (S ! fst x))) \<and>
      (\<exists>qs. Q pre (S ! fst x) (snd x) qs)"
    for pre :: "string list" and S :: store and x :: "ref \<times> category_mapper"
  have "I fs S' (r, m)"
  proof (rule for_each_invariant [where I = I, OF run])
    have "map (\<lambda>q. codes ! q) [0..<length codes] = codes" by (rule map_nth)
    then have "Q [] (S0 ! df0) m0 [0..<length codes]"
      unfolding Q_def using col len by simp
    then show "I [] S0 (df0, m0)"
      unfolding I_def using df0 sub by auto
  next
    fix pre g post S x y S2
    assume fs: "fs = pre @ g # post"
      and inv: "I pre S x"
      and step0: "numericalize_feature maxc skp g S x = (Inr y, S2)"
    obtain df mp where x: "x = (df, mp)" by (cases x)
    obtain df' mp' where y: "y = (df', mp')" by (cases y)
    note step = step0 [unfolded x y]
    let ?T = "S ! df" and ?T' = "S2 ! df'"
    from inv x obtain qs where df: "df < length S"
      and rem: "\<forall>h \<in> set fs. h \<notin> set pre \<longrightarrow> h \<in> set (names ?T)"
      and Q: "Q pre ?T mp qs"
      unfolding I_def by auto
    from dfs fs have gpre: "g \<notin> set pre" and gpost: "g \<notin> set post" by auto
    from Q have lq: "length qs = length (index ?T)"
      and bq: "\<forall>q \<in> set qs. q < length codes"
      and dq: "distinct ?idx0 \<longrightarrow> qs = [0..<length codes] \<and> index ?T = ?idx0"
      unfolding Q_def by blast+
    show "I (pre @ [g]) S2 y"
    proof (cases "g = c")
      case True
      with gpre have cpre: "c \<notin> set pre" by simp
      with Q have colT: "getitem ?T c = Inr (Category cats ord (map (\<lambda>q. codes ! q) qs))"
        unfolding Q_def by simp
      have lcur: "length (map (\<lambda>q. codes ! q) qs) = length (index ?T)" using lq by simp
      from numericalize_feature_own [OF step [unfolded True] df colT nskip dc lcur]
      obtain rows where df': "df' < length S2"
        and keep: "set (names ?T) - {c} \<subseteq> set (names ?T')"
        and lr: "length rows = length (index ?T')"
        and br: "\<forall>r \<in> set rows. r < length qs"
        and dr: "distinct (index ?T) \<longrightarrow> rows = [0..<length qs] \<and> index ?T' = index ?T"
        and post: "if int (length cats) > maxc
         then getitem ?T' c = Inr (Integer (map (\<lambda>r. map (\<lambda>q. codes ! q) qs ! r + 1) rows)) \<and>
              map_of mp' c = Some (Coded (enumerate_dict cats))
         else (\<forall>k < length cats.
                 getitem ?T' (c @ ''_'' @ cats ! k)
                   = Inr (Integer (map (\<lambda>r. if map (\<lambda>q. codes ! q) qs ! r = int k then 1 else 0) rows)) \<and>
                 c @ ''_'' @ cats ! k \<notin> set (names ?T) - {c}) \<and>
              map_of mp' c = Some OneHot \<and> c \<notin> set (names ?T')"
        by auto
      let ?qs' = "map (\<lambda>r. qs ! r) rows"
      have m1: "map (\<lambda>r. map (\<lambda>q. codes ! q) qs ! r + 1) rows = map (\<lambda>q. codes ! q + 1) ?qs'"
        using br by (simp add: comp_def)
      have m2: "map (\<lambda>r. if map (\<lambda>q. codes ! q) qs ! r = int k then 1 else 0) rows
                = map (\<lambda>q. if codes ! q = int k then (1::int) else 0) ?qs'" for k
        using br by (simp add: comp_def)
      have q1: "length ?qs' = length (index ?T')" using lr by simp
      have q2: "\<forall>q \<in> set ?qs'. q < length codes" using br bq by auto
      have q3: "distinct ?idx0 \<longrightarrow> ?qs' = [0..<length codes] \<and> index ?T' = ?idx0"
      proof
        assume d: "distinct ?idx0"
        with dq have a: "qs = [0..<length codes]" "index ?T = ?idx0" by simp_all
        with d dr have b: "rows = [0..<length qs]" "index ?T' = index ?T" by simp_all
        have "?qs' = qs" unfolding b(1) by (rule map_nth)
        with a b show "?qs' = [0..<length codes] \<and> index ?T' = ?idx0" by simp
      qed
      have gen: "c @ ''_'' @ cats ! k \<in> set fs \<longrightarrow> c @ ''_'' @ cats ! k \<in> set (pre @ [c])"
        if k: "k < length cats" and small: "\<not> int (length cats) > maxc" for k
      proof
        assume infs: "c @ ''_'' @ cats ! k \<in> set fs"
        show "c @ ''_'' @ cats ! k \<in> set (pre @ [c])"
        proof (rule ccontr)
          assume n: "c @ ''_'' @ cats ! k \<notin> set (pre @ [c])"
          with infs rem have "c @ ''_'' @ cats ! k \<in> set (names ?T)" by simp
          moreover have "c @ ''_'' @ cats ! k \<noteq> c" by simp
          ultimately show False using post small k by auto
        qed
      qed
      have q4: "if int (length cats) > maxc
        then getitem ?T' c = Inr (Integer (map (\<lambda>q. codes ! q + 1) ?qs')) \<and>
             map_of mp' c = Some (Coded (enumerate_dict cats))
        else (\<forall>k < length cats. getitem ?T' (c @ ''_'' @ cats ! k)
                = Inr (Integer (map (\<lambda>q. if codes ! q = int k then 1 else 0) ?qs')) \<and>
                (c @ ''_'' @ cats ! k \<in> set fs \<longrightarrow> c @ ''_'' @ cats ! k \<in> set (pre @ [c]))) \<and>
             map_of mp' c = Some OneHot \<and>
             (c \<notin> set (names ?T') \<or> (\<exists>d \<in> set (pre @ [c]). \<exists>v. c = d @ ''_'' @ v))"
        using post gen unfolding m1 m2 by (cases "int (length cats) > maxc") simp_all
      have "Q (pre @ [c]) ?T' mp' ?qs'"
        unfolding Q_def using q1 q2 q3 q4 by simp
      moreover have "\<forall>h \<in> set fs. h \<notin> set (pre @ [c]) \<longrightarrow> h \<in> set (names ?T')"
        using rem keep by auto
      ultimately show ?thesis
        unfolding I_def y True using df' by auto
    next
      case False
      from numericalize_feature_other [OF step df]
      obtain rows where df': "df' < length S2"
        and br: "\<forall>r \<in> set rows. r < length (index ?T)"
        and ir: "index ?T' = map (\<lambda>r. index ?T ! r) rows"
        and dr: "distinct (index ?T) \<longrightarrow> rows = [0..<length (index ?T)]"
        and cols: "\<forall>n c. n \<noteq> g \<longrightarrow> getitem ?T n = Inr c \<longrightarrow> col_length c = length (index ?T) \<longrightarrow>
            getitem ?T' n = Inr (take_rows rows c)"
        and keep: "set (names ?T) - {g} \<subseteq> set (names ?T')"
        and new: "set (names ?T') \<subseteq> set (names ?T) \<union> {g @ ''_'' @ v | v. True}"
        and mp: "\<forall>n. n \<noteq> g \<longrightarrow> map_of mp' n = map_of mp n"
        by blast
      let ?qs' = "map (\<lambda>r. qs ! r) rows"
      have brq: "\<forall>r \<in> set rows. r < length qs" using br lq by simp
      have q1: "length ?qs' = length (index ?T')" using ir by simp
      have q2: "\<forall>q \<in> set ?qs'. q < length codes" using brq bq by auto
      have q3: "distinct ?idx0 \<longrightarrow> ?qs' = [0..<length codes] \<and> index ?T' = ?idx0"
      proof
        assume d: "distinct ?idx0"
        with dq have a: "qs = [0..<length codes]" "index ?T = ?idx0" by simp_all
        with d dr lq have b: "rows = [0..<length qs]" by simp
        have "?qs' = qs" unfolding b by (rule map_nth)
        moreover have "index ?T' = index ?T" unfolding ir b lq by (rule map_nth)
        ultimately show "?qs' = [0..<length codes] \<and> index ?T' = ?idx0" using a by simp
      qed
      have moved: "getitem ?T' n = Inr (take_rows rows col')"
        if "n \<noteq> g" "getitem ?T n = Inr col'" "col_length col' = length qs" for n col'
        using cols that lq by simp
      have q4: "if c \<notin> set (pre @ [g]) then getitem ?T' c = Inr (Category cats ord (map (\<lambda>q. codes ! q) ?qs'))
       else if int (length cats) > maxc
        then getitem ?T' c = Inr (Integer (map (\<lambda>q. codes ! q + 1) ?qs')) \<and>
             map_of mp' c = Some (Coded (enumerate_dict cats))
        else (\<forall>k < length cats. getitem ?T' (c @ ''_'' @ cats ! k)
                = Inr (Integer (map (\<lambda>q. if codes ! q = int k then 1 else 0) ?qs')) \<and>
                (c @ ''_'' @ cats ! k \<in> set fs \<longrightarrow> c @ ''_'' @ cats ! k \<in> set (pre @ [g]))) \<and>
             map_of mp' c = Some OneHot \<and>
             (c \<notin> set (names ?T') \<or> (\<exists>d \<in> set (pre @ [g]). \<exists>v. c = d @ ''_'' @ v))"
      proof (cases "c \<in> set pre")
        case cpre: False
        with Q have "getitem ?T c = Inr (Category cats ord (map (\<lambda>q. codes ! q) qs))"
          unfolding Q_def by simp
        from moved [OF _ this] False
        have "getitem ?T' c = Inr (Category cats ord (map (\<lambda>q. codes ! q) ?qs'))"
          using brq by (simp add: comp_def)
        with cpre False show ?thesis by simp
      next
        case cpre: True
        show ?thesis
        proof (cases "int (length cats) > maxc")
          case big: True
          with Q cpre have "getitem ?T c = Inr (Integer (map (\<lambda>q. codes ! q + 1) qs))"
            and "map_of mp c = Some (Coded (enumerate_dict cats))"
            unfolding Q_def by simp_all
          with moved [OF _ this(1)] False mp
          have "getitem ?T' c = Inr (Integer (map (\<lambda>q. codes ! q + 1) ?qs'))"
            and "map_of mp' c = Some (Coded (enumerate_dict cats))"
            using brq by (simp_all add: comp_def)
          with cpre big show ?thesis by simp
        next
          case small: False
          with Q cpre have ind: "\<forall>k < length cats. getitem ?T (c @ ''_'' @ cats ! k)
                = Inr (Integer (map (\<lambda>q. if codes ! q = int k then 1 else 0) qs)) \<and>
                (c @ ''_'' @ cats ! k \<in> set fs \<longrightarrow> c @ ''_'' @ cats ! k \<in> set pre)"
            and mo: "map_of mp c = Some OneHot"
            and gone: "c \<notin> set (names ?T) \<or> (\<exists>d \<in> set pre. \<exists>v. c = d @ ''_'' @ v)"
            unfolding Q_def by simp_all
          have gfs: "g \<in> set fs" using fs by simp
          have ind': "\<forall>k < length cats. getitem ?T' (c @ ''_'' @ cats ! k)
                = Inr (Integer (map (\<lambda>q. if codes ! q = int k then 1 else 0) ?qs')) \<and>
                (c @ ''_'' @ cats ! k \<in> set fs \<longrightarrow> c @ ''_'' @ cats ! k \<in> set (pre @ [g]))"
          proof (intro allI impI)
            fix k assume k: "k < length cats"
            with ind have a: "getitem ?T (c @ ''_'' @ cats ! k)
                = Inr (Integer (map (\<lambda>q. if codes ! q = int k then 1 else 0) qs))"
              and b: "c @ ''_'' @ cats ! k \<in> set fs \<longrightarrow> c @ ''_'' @ cats ! k \<in> set pre"
              by simp_all
            from b gfs gpre have ne: "c @ ''_'' @ cats ! k \<noteq> g" by blast
            from moved [OF ne a] brq
            have "getitem ?T' (c @ ''_'' @ cats ! k)
                = Inr (Integer (map (\<lambda>q. if codes ! q = int k then 1 else 0) ?qs'))"
              by (simp add: comp_def)
            with b show "getitem ?T' (c @ ''_'' @ cats ! k)
                = Inr (Integer (map (\<lambda>q. if codes ! q = int k then 1 else 0) ?qs')) \<and>
                (c @ ''_'' @ cats ! k \<in> set fs \<longrightarrow> c @ ''_'' @ cats ! k \<in> set (pre @ [g]))"
              by simp
          qed
          have gone': "c \<notin> set (names ?T') \<or> (\<exists>d \<in> set (pre @ [g]). \<exists>v. c = d @ ''_'' @ v)"
            using gone new by auto
          from mo mp False have "map_of mp' c = Some OneHot" by simp
          with ind' gone' cpre small show ?thesis by simp
        qed
      qed
      have "Q (pre @ [g]) ?T' mp' ?qs'"
        unfolding Q_def using q1 q2 q3 q4 by simp
      moreover have "\<forall>h \<in> set fs. h \<notin> set (pre @ [g]) \<longrightarrow> h \<in> set (names ?T')"
        using rem keep by auto
      ultimately show ?thesis
        unfolding I_def y using df' by auto
    qed
  qed
  then obtain qs where "r < length S'" and "Q fs (S' ! r) m qs"
    unfolding I_def by auto
  then show ?thesis
    unfolding Q_def using cfs by (cases "int (length cats) > maxc") auto
qed

subsection \<open>The whole call\<close>

lemma numericalize_categories_run:
  assumes "numericalize_categories s a maxc skp = (Inr (r, m), s')"
  shows "for_each (numericalize_feature maxc (normalize skp)) (names (s ! a))
           (s @ [s ! a]) (length s, []) = (Inr (r, m), s')"
  using assms
  by (simp add: numericalize_categories_def frame_copy_def allocate_def nth_append)

lemma numericalize_categories_column:
  assumes run: "numericalize_categories s a maxc skp = (Inr (r, m), s')"
    and wf: "wf_table (s ! a)"
    and col: "getitem (s ! a) c = Inr (Category cats ord codes)"
    and nskip: "c \<notin> set (normalize skp)"
  shows "length codes = length (index (s ! a)) \<and> distinct cats \<and>
    (\<forall>x \<in> set codes. - 1 \<le> x \<and> x < int (length cats)) \<and>
    (\<exists>qs. length qs = length (index (s' ! r)) \<and> (\<forall>q \<in> set qs. q < length codes) \<and>
       (distinct (index (s ! a)) \<longrightarrow> qs = [0..<length codes] \<and> index (s' ! r) = index (s ! a)) \<and>
       (if int (length cats) > maxc
        then getitem (s' ! r) c = Inr (Integer (map (\<lambda>q. codes ! q + 1) qs)) \<and>
             map_of m c = Some (Coded (enumerate_dict cats))
        else (\<forall>k < length cats. getitem (s' ! r) (c @ ''_'' @ cats ! k)
                = Inr (Integer (map (\<lambda>q. if codes ! q = int k then 1 else 0) qs))) \<and>
             map_of m c = Some OneHot \<and>
             (c \<notin> set (names (s' ! r)) \<or> (\<exists>d \<in> set (names (s ! a)). \<exists>v. c = d @ ''_'' @ v))))"
proof -
  let ?S0 = "s @ [s ! a]"
  have t0: "?S0 ! length s = s ! a" by simp
  from wf_table_getitem [OF wf col]
  have len: "length codes = length (index (s ! a))" and dc: "distinct cats"
    and rng: "\<forall>x \<in> set codes. - 1 \<le> x \<and> x < int (length cats)"
    by (simp_all add: list_all_iff)
  have dfs: "distinct (names (s ! a))" using wf by (simp add: wf_table_def)
  have cfs: "c \<in> set (names (s ! a))" using col by (rule getitem_names)
  from numericalize_loop_column [OF numericalize_categories_run [OF run], unfolded t0,
      OF _ dfs subset_refl col len dc cfs nskip]
  show ?thesis using len dc rng by simp
qed

subsection \<open>The names of the columns\<close>

lemma take_rows_categorical [simp]:
  "is_categorical_dtype (take_rows ps c) = is_categorical_dtype c"
  "cat_categories (take_rows ps c) = cat_categories c"
  by (cases c; simp)+

lemma getitem_get_dummies_Integer:
  assumes "getitem (get_dummies idx col g) n = Inr c"
  shows "\<not> is_categorical_dtype c"
proof -
  from getitem_columns [OF assms] show ?thesis by (auto simp: get_dummies_def)
qed

text \<open>
  What a step does to the names and to the categorical columns: a categorical column of the
  frame after the step was one before, with the same categories; every column but the one
  processed keeps its categories; the new names are those of the indicator columns.
\<close>

lemma numericalize_feature_names:
  assumes step: "numericalize_feature maxc skp g S (df, m) = (Inr (df', m'), S')"
    and df: "df < length S"
  shows "df' < length S' \<and>
    (\<forall>n col. getitem (S' ! df') n = Inr col \<longrightarrow> is_categorical_dtype col \<longrightarrow>
       (\<exists>col0. getitem (S ! df) n = Inr col0 \<and> is_categorical_dtype col0 \<and>
               cat_categories col0 = cat_categories col)) \<and>
    (\<forall>n col. n \<noteq> g \<longrightarrow> getitem (S ! df) n = Inr col \<longrightarrow>
       (\<exists>col'. getitem (S' ! df') n = Inr col' \<and> is_categorical_dtype col' = is_categorical_dtype col \<and>
               cat_categories col' = cat_categories col)) \<and>
    set (names (S' ! df')) \<subseteq>
      set (names (S ! df)) \<union> {n. one_hot_column maxc skp (S ! df) g \<and> n \<in> set (indicator_names (S ! df) g)} \<and>
    (one_hot_column maxc skp (S ! df) g \<longrightarrow> g \<notin> set (names (S' ! df')))"
proof -
  let ?T = "S ! df" and ?T' = "S' ! df'"
  from step df show ?thesis
  proof (cases rule: numericalize_feature_cases)
    case unchanged
    then have "\<not> one_hot_column maxc skp ?T g"
      by (auto simp: one_hot_column_def)
    with unchanged df show ?thesis by auto
  next
    case (codes cats ord codes)
    then have T': "?T' = setitem ?T g (Integer (map (\<lambda>c. c + 1) codes))" using df by simp
    have "g \<in> set (names ?T)" using codes(2) by (rule getitem_names)
    then have n: "set (names ?T') = set (names ?T)" unfolding T' by auto
    have noh: "\<not> one_hot_column maxc skp ?T g"
      using codes(2,3) by (simp add: one_hot_column_def)
    have a: "\<forall>n col. getitem ?T' n = Inr col \<longrightarrow> is_categorical_dtype col \<longrightarrow>
       (\<exists>col0. getitem ?T n = Inr col0 \<and> is_categorical_dtype col0 \<and>
               cat_categories col0 = cat_categories col)"
      unfolding T' by (auto split: if_splits)
    have b: "\<forall>n col. n \<noteq> g \<longrightarrow> getitem ?T n = Inr col \<longrightarrow>
       (\<exists>col'. getitem ?T' n = Inr col' \<and> is_categorical_dtype col' = is_categorical_dtype col \<and>
               cat_categories col' = cat_categories col)"
      unfolding T' by simp
    have "df' < length S'" using codes(4,5) df by simp
    with a b n noh show ?thesis by blast
  next
    case (one_hot cats ord codes t1 t')
    let ?D = "get_dummies (index ?T) (Category cats ord codes) g"
    note gj = getitem_join [OF one_hot(5)]
    note gd = drop_columns_getitem [OF one_hot(4)]
    have n1: "set (names t1) = set (names ?T) - {g}"
      using drop_columns_names [OF one_hot(4)] by simp
    have nm: "set (names t') = (set (names ?T) - {g}) \<union> set (map (\<lambda>v. g @ ''_'' @ v) cats)"
      using names_join [OF one_hot(5)] n1 by (simp add: names_get_dummies)
    have oh: "one_hot_column maxc skp ?T g"
      using one_hot(1,2,3) by (simp add: one_hot_column_def)
    have ind: "indicator_names ?T g = map (\<lambda>v. g @ ''_'' @ v) cats"
      using one_hot(2) by (simp add: indicator_names_def)
    have a: "\<forall>n col. getitem t' n = Inr col \<longrightarrow> is_categorical_dtype col \<longrightarrow>
       (\<exists>col0. getitem ?T n = Inr col0 \<and> is_categorical_dtype col0 \<and>
               cat_categories col0 = cat_categories col)"
    proof (intro allI impI)
      fix n col assume g: "getitem t' n = Inr col" and c: "is_categorical_dtype col"
      show "\<exists>col0. getitem ?T n = Inr col0 \<and> is_categorical_dtype col0 \<and>
               cat_categories col0 = cat_categories col"
      proof (cases "getitem t1 n")
        case (Inr c1)
        with gj [of n] g have "col = take_rows (map fst (join_rows (index t1) (index ?D))) c1" by simp
        moreover from Inr gd [of n] have "getitem ?T n = Inr c1" by (simp split: if_splits)
        ultimately show ?thesis using c by simp
      next
        case (Inl e)
        show ?thesis
        proof (cases "getitem ?D n")
          case (Inr c2)
          with Inl gj [of n] g have "col = take_rows (map snd (join_rows (index t1) (index ?D))) c2" by simp
          with c have "is_categorical_dtype c2" by simp
          with getitem_get_dummies_Integer [OF Inr] show ?thesis by simp
        next
          case Inl2: (Inl e2)
          with Inl gj [of n] g show ?thesis by simp
        qed
      qed
    qed
    have b: "\<forall>n col. n \<noteq> g \<longrightarrow> getitem ?T n = Inr col \<longrightarrow>
       (\<exists>col'. getitem t' n = Inr col' \<and> is_categorical_dtype col' = is_categorical_dtype col \<and>
               cat_categories col' = cat_categories col)"
    proof (intro allI impI)
      fix n col assume "n \<noteq> g" and "getitem ?T n = Inr col"
      with gd [of n] have "getitem t1 n = Inr col" by simp
      with gj [of n] have "getitem t' n = Inr (take_rows (map fst (join_rows (index t1) (index ?D))) col)"
        by simp
      then show "\<exists>col'. getitem t' n = Inr col' \<and> is_categorical_dtype col' = is_categorical_dtype col \<and>
               cat_categories col' = cat_categories col"
        by simp
    qed
    have c: "set (names t') \<subseteq>
      set (names ?T) \<union> {n. one_hot_column maxc skp ?T g \<and> n \<in> set (indicator_names ?T g)}"
      unfolding nm ind using oh by auto
    have d: "g \<notin> set (names t')" unfolding nm by auto
    from a b c d one_hot(6) show ?thesis unfolding one_hot(7) by blast
  qed
qed

text \<open>
  A column replaced by indicators is gone at the end of the loop, unless its name is the name of
  an indicator column of a column replaced by indicators.
\<close>

lemma numericalize_loop_dropped:
  assumes run: "for_each (numericalize_feature maxc skp) fs S0 (df0, m0) = (Inr (r, m), S')"
    and df0: "df0 < length S0"
    and dfs: "distinct fs"
    and cfs: "c \<in> set fs"
    and oh: "one_hot_column maxc skp (S0 ! df0) c"
  shows "c \<notin> set (names (S' ! r)) \<or>
         (\<exists>d \<in> set fs. one_hot_column maxc skp (S0 ! df0) d \<and> c \<in> set (indicator_names (S0 ! df0) d))"
proof -
  let ?In = "S0 ! df0"
  define I where "I pre S x \<longleftrightarrow>
      fst x < length S \<and>
      (\<forall>n col. getitem (S ! fst x) n = Inr col \<longrightarrow> is_categorical_dtype col \<longrightarrow>
         (\<exists>col0. getitem ?In n = Inr col0 \<and> is_categorical_dtype col0 \<and>
                 cat_categories col0 = cat_categories col)) \<and>
      (if c \<notin> set pre
       then one_hot_column maxc skp (S ! fst x) c
       else c \<notin> set (names (S ! fst x)) \<or>
            (\<exists>d \<in> set pre. one_hot_column maxc skp ?In d \<and> c \<in> set (indicator_names ?In d)))"
    for pre :: "string list" and S :: store and x :: "ref \<times> category_mapper"
  have "I fs S' (r, m)"
  proof (rule for_each_invariant [where I = I, OF run])
    show "I [] S0 (df0, m0)" unfolding I_def using df0 oh by auto
  next
    fix pre g post S x y S2
    assume fs: "fs = pre @ g # post"
      and inv: "I pre S x"
      and step0: "numericalize_feature maxc skp g S x = (Inr y, S2)"
    obtain df mp where x: "x = (df, mp)" by (cases x)
    obtain df' mp' where y: "y = (df', mp')" by (cases y)
    note step = step0 [unfolded x y]
    let ?T = "S ! df" and ?T' = "S2 ! df'"
    from inv [unfolded I_def x] have df: "df < length S"
      and prov: "\<forall>n col. getitem ?T n = Inr col \<longrightarrow> is_categorical_dtype col \<longrightarrow>
         (\<exists>col0. getitem ?In n = Inr col0 \<and> is_categorical_dtype col0 \<and>
                 cat_categories col0 = cat_categories col)"
      and own: "if c \<notin> set pre
       then one_hot_column maxc skp ?T c
       else c \<notin> set (names ?T) \<or>
            (\<exists>d \<in> set pre. one_hot_column maxc skp ?In d \<and> c \<in> set (indicator_names ?In d))"
      by (simp_all split: if_splits)
    from dfs fs have gpre: "g \<notin> set pre" by auto
    from numericalize_feature_names [OF step df]
    have df': "df' < length S2"
      and a: "\<forall>n col. getitem ?T' n = Inr col \<longrightarrow> is_categorical_dtype col \<longrightarrow>
       (\<exists>col0. getitem ?T n = Inr col0 \<and> is_categorical_dtype col0 \<and>
               cat_categories col0 = cat_categories col)"
      and b: "\<forall>n col. n \<noteq> g \<longrightarrow> getitem ?T n = Inr col \<longrightarrow>
       (\<exists>col'. getitem ?T' n = Inr col' \<and> is_categorical_dtype col' = is_categorical_dtype col \<and>
               cat_categories col' = cat_categories col)"
      and nms: "set (names ?T') \<subseteq>
        set (names ?T) \<union> {n. one_hot_column maxc skp ?T g \<and> n \<in> set (indicator_names ?T g)}"
      and gone: "one_hot_column maxc skp ?T g \<longrightarrow> g \<notin> set (names ?T')"
      by blast+
    have prov': "\<forall>n col. getitem ?T' n = Inr col \<longrightarrow> is_categorical_dtype col \<longrightarrow>
         (\<exists>col0. getitem ?In n = Inr col0 \<and> is_categorical_dtype col0 \<and>
                 cat_categories col0 = cat_categories col)"
    proof (intro allI impI)
      fix n col assume "getitem ?T' n = Inr col" and "is_categorical_dtype col"
      with a obtain col1 where "getitem ?T n = Inr col1" "is_categorical_dtype col1"
        "cat_categories col1 = cat_categories col" by blast
      with prov show "\<exists>col0. getitem ?In n = Inr col0 \<and> is_categorical_dtype col0 \<and>
                 cat_categories col0 = cat_categories col"
        by fastforce
    qed
    have orig: "one_hot_column maxc skp ?In g \<and> indicator_names ?In g = indicator_names ?T g"
      if "one_hot_column maxc skp ?T g"
    proof -
      from that obtain col where col: "getitem ?T g = Inr col" and "is_categorical_dtype col"
        and "int (length (cat_categories col)) \<le> maxc" and "g \<notin> set skp"
        by (auto simp: one_hot_column_def split: sum.splits)
      moreover from this prov obtain col0 where "getitem ?In g = Inr col0" "is_categorical_dtype col0"
        "cat_categories col0 = cat_categories col" by blast
      ultimately show ?thesis by (simp add: one_hot_column_def indicator_names_def)
    qed
    have own': "if c \<notin> set (pre @ [g])
       then one_hot_column maxc skp ?T' c
       else c \<notin> set (names ?T') \<or>
            (\<exists>d \<in> set (pre @ [g]). one_hot_column maxc skp ?In d \<and> c \<in> set (indicator_names ?In d))"
    proof (cases "c \<in> set pre")
      case True
      show ?thesis
      proof (cases "c \<in> set (names ?T')")
        case False
        with True show ?thesis by simp
      next
        case inT': True
        show ?thesis
        proof (cases "c \<in> set (names ?T)")
          case True
          with own \<open>c \<in> set pre\<close> show ?thesis by auto
        next
          case False
          with inT' nms have "one_hot_column maxc skp ?T g" "c \<in> set (indicator_names ?T g)"
            by auto
          with orig have "one_hot_column maxc skp ?In g \<and> c \<in> set (indicator_names ?In g)" by simp
          with \<open>c \<in> set pre\<close> show ?thesis by auto
        qed
      qed
    next
      case False
      with own have ohc: "one_hot_column maxc skp ?T c" by simp
      show ?thesis
      proof (cases "g = c")
        case True
        with gone ohc show ?thesis by simp
      next
        case ne: False
        from ohc obtain col where col: "getitem ?T c = Inr col" and "is_categorical_dtype col"
          and "int (length (cat_categories col)) \<le> maxc" and "c \<notin> set skp"
          by (auto simp: one_hot_column_def split: sum.splits)
        moreover from b ne col obtain col' where "getitem ?T' c = Inr col'"
          "is_categorical_dtype col' = is_categorical_dtype col"
          "cat_categories col' = cat_categories col"
          by metis
        ultimately have "one_hot_column maxc skp ?T' c" by (simp add: one_hot_column_def)
        with False ne show ?thesis by simp
      qed
    qed
    show "I (pre @ [g]) S2 y" unfolding I_def y fst_conv using df' prov' own' by (intro conjI)
  qed
  with cfs show ?thesis unfolding I_def by auto
qed

lemma numericalize_categories_dropped:
  assumes run: "numericalize_categories s a maxc skp = (Inr (r, m), s')"
    and wf: "wf_table (s ! a)"
    and col: "getitem (s ! a) c = Inr (Category cats ord codes)"
    and nskip: "c \<notin> set (normalize skp)"
    and small: "int (length cats) \<le> maxc"
  shows "c \<notin> set (names (s' ! r)) \<or>
         (\<exists>d cats' ord' codes' v. getitem (s ! a) d = Inr (Category cats' ord' codes') \<and>
            d \<notin> set (normalize skp) \<and> int (length cats') \<le> maxc \<and> v \<in> set cats' \<and>
            c = d @ ''_'' @ v)"
proof -
  let ?S0 = "s @ [s ! a]"
  have t0: "?S0 ! length s = s ! a" by simp
  have dfs: "distinct (names (s ! a))" using wf by (simp add: wf_table_def)
  have cfs: "c \<in> set (names (s ! a))" using col by (rule getitem_names)
  have oh: "one_hot_column maxc (normalize skp) (s ! a) c"
    using col nskip small by (simp add: one_hot_column_def)
  from numericalize_loop_dropped [OF numericalize_categories_run [OF run], unfolded t0, OF _ dfs cfs oh]
  have "c \<notin> set (names (s' ! r)) \<or>
         (\<exists>d \<in> set (names (s ! a)). one_hot_column maxc (normalize skp) (s ! a) d \<and>
            c \<in> set (indicator_names (s ! a) d))"
    by simp
  then show ?thesis
  proof
    assume "c \<notin> set (names (s' ! r))"
    then show ?thesis ..
  next
    assume "\<exists>d \<in> set (names (s ! a)). one_hot_column maxc (normalize skp) (s ! a) d \<and>
            c \<in> set (indicator_names (s ! a) d)"
    then obtain d where d: "one_hot_column maxc (normalize skp) (s ! a) d"
      and cd: "c \<in> set (indicator_names (s ! a) d)" by blast
    from d obtain cold where g: "getitem (s ! a) d = Inr cold" and ic: "is_categorical_dtype cold"
      and sm: "int (length (cat_categories cold)) \<le> maxc" and ns: "d \<notin> set (normalize skp)"
      by (auto simp: one_hot_column_def split: sum.splits)
    from ic obtain cats' ord' codes' where cold: "cold = Category cats' ord' codes'"
      by (cases cold) simp_all
    from cd g cold obtain v where "v \<in> set cats'" "c = d @ ''_'' @ v"
      by (auto simp: indicator_names_def)
    with g cold sm ns show ?thesis by auto
  qed
qed

subsection \<open>The recorded mapping\<close>

lemma map_of_enumerate_dict:
  "map_of (enumerate_dict cats) x = (if 0 \<le> x \<and> x < int (length cats) then Some (cats ! nat x) else None)"
proof (cases "0 \<le> x \<and> x < int (length cats)")
  case True
  then have k: "nat x < length cats" and x: "x = int (nat x)" by linarith+
  have "map_of (zip (map int [0..<length cats]) cats) (map int [0..<length cats] ! nat x) = Some (cats ! nat x)"
    by (rule map_of_zip_nth) (use k in \<open>simp_all add: distinct_map inj_on_def\<close>)
  then show ?thesis using True k by (simp add: enumerate_dict_def)
next
  case False
  then have out: "x \<notin> set (map int [0..<length cats])" by auto
  have "(map_of (zip (map int [0..<length cats]) cats) x = None) = (x \<notin> set (map int [0..<length cats]))"
    by (rule map_of_zip_is_None) simp
  with out have "map_of (zip (map int [0..<length cats]) cats) x = None" by blast
  with False show ?thesis by (auto simp: enumerate_dict_def)
qed

lemma enumerate_dict_values: "map snd (enumerate_dict cats) = cats"
  and enumerate_dict_keys: "map fst (enumerate_dict cats) = map int [0..<length cats]"
  by (simp_all add: enumerate_dict_def)

lemma indicator_row_sum:
  assumes "- 1 \<le> x" and "x < int n"
  shows "(\<Sum>k\<leftarrow>[0..<n]. if x = int k then 1 else 0) = (if x = - 1 then 0 else (1::int))"
proof (cases "x = - 1")
  case True
  then have "(\<Sum>k\<leftarrow>[0..<n]. if x = int k then 1 else (0::int)) = (\<Sum>k\<leftarrow>[0..<n]. 0)"
    by (intro arg_cong [where f = sum_list] map_cong) auto
  with True show ?thesis by simp
next
  case False
  with assms have x: "0 \<le> x" "nat x < n" by linarith+
  have "(\<Sum>k\<leftarrow>[0..<n]. if x = int k then 1 else (0::int)) = (\<Sum>k\<leftarrow>[0..<n]. if k = nat x then 1 else 0)"
    using x by (intro arg_cong [where f = sum_list] map_cong) auto
  also have "\<dots> = (\<Sum>k \<in> {0..<n}. if k = nat x then 1 else 0)"
    by (simp add: interv_sum_list_conv_sum_set_nat)
  also have "\<dots> = 1" using x by simp
  finally show ?thesis using False by simp
qed

subsection \<open>Columns replaced by codes\<close>

text \<open>
  C1, as the code has it: a categorical column that is not skipped and has more categories than
  \<^verbatim>\<open>max_categories\<close> is replaced by the column of its codes plus one, row by row (\<open>qs\<close> names
  the input row behind each output row: all rows in order when the labels of the index are
  distinct). The mapper records for the column the dictionary from the zero-based codes to the
  categories, whose values are the categories in their order. For every row whose entry is not
  missing, the output code minus one is a key of the dictionary and its value is the category of
  the row.
\<close>

theorem numericalize_categories_codes:
  assumes "numericalize_categories s data_frame max_categories skip_features
           = (Inr (r, category_mapper), s')"
    and "wf_table (s ! data_frame)"
    and "getitem (s ! data_frame) c = Inr (Category cats ord codes)"
    and "c \<notin> set (normalize skip_features)"
    and "int (length cats) > max_categories"
  shows "\<exists>qs. length qs = length (index (s' ! r)) \<and> (\<forall>q \<in> set qs. q < length codes) \<and>
          (distinct (index (s ! data_frame)) \<longrightarrow> qs = [0..<length codes]) \<and>
          getitem (s' ! r) c = Inr (Integer (map (\<lambda>q. codes ! q + 1) qs)) \<and>
          map_of category_mapper c = Some (Coded (enumerate_dict cats)) \<and>
          map fst (enumerate_dict cats) = map int [0..<length cats] \<and>
          map snd (enumerate_dict cats) = cats \<and>
          (\<forall>q \<in> set qs. codes ! q \<noteq> - 1 \<longrightarrow>
             map_of (enumerate_dict cats) ((codes ! q + 1) - 1) = Some (cats ! nat (codes ! q)))"
proof -
  note column = numericalize_categories_column [OF assms(1-4)]
  from column have rng: "\<forall>x \<in> set codes. - 1 \<le> x \<and> x < int (length cats)"
    by blast
  from column obtain qs where q1: "length qs = length (index (s' ! r))"
    and q2: "\<forall>q \<in> set qs. q < length codes"
    and q3': "distinct (index (s ! data_frame)) \<longrightarrow>
              qs = [0..<length codes] \<and> index (s' ! r) = index (s ! data_frame)"
    and br: "if int (length cats) > max_categories
        then getitem (s' ! r) c = Inr (Integer (map (\<lambda>q. codes ! q + 1) qs)) \<and>
             map_of category_mapper c = Some (Coded (enumerate_dict cats))
        else (\<forall>k < length cats. getitem (s' ! r) (c @ ''_'' @ cats ! k)
                = Inr (Integer (map (\<lambda>q. if codes ! q = int k then 1 else 0) qs))) \<and>
             map_of category_mapper c = Some OneHot \<and>
             (c \<notin> set (names (s' ! r)) \<or> (\<exists>d \<in> set (names (s ! data_frame)). \<exists>v. c = d @ ''_'' @ v))"
    by blast
  from q3' have q3: "distinct (index (s ! data_frame)) \<longrightarrow> qs = [0..<length codes]" by blast
  from br assms(5) have q4: "getitem (s' ! r) c = Inr (Integer (map (\<lambda>q. codes ! q + 1) qs))"
    and q5: "map_of category_mapper c = Some (Coded (enumerate_dict cats))"
    by simp_all
  have q6: "\<forall>q \<in> set qs. codes ! q \<noteq> - 1 \<longrightarrow>
             map_of (enumerate_dict cats) ((codes ! q + 1) - 1) = Some (cats ! nat (codes ! q))"
  proof (intro ballI impI)
    fix q assume "q \<in> set qs" and present: "codes ! q \<noteq> - 1"
    with q2 have "codes ! q \<in> set codes" by simp
    with rng present have "0 \<le> codes ! q \<and> codes ! q < int (length cats)" by force
    then show "map_of (enumerate_dict cats) ((codes ! q + 1) - 1) = Some (cats ! nat (codes ! q))"
      by (simp add: map_of_enumerate_dict)
  qed
  show ?thesis
    using q1 q2 q3 q4 q5 q6 enumerate_dict_keys [of cats] enumerate_dict_values [of cats]
    by (intro exI [where x = qs] conjI)
qed

theorem numericalize_categories_codes_witness:
  "fst example_coding = Inr (1, [(''c'', Coded [(0, ''x''), (1, ''y'')])]) \<and>
   wf_table ([missing_frame] ! 0) \<and>
   getitem ([missing_frame] ! 0) ''c'' = Inr (Category [''x'', ''y''] False [0, - 1, 1]) \<and>
   distinct (index ([missing_frame] ! 0)) \<and>
   getitem (snd example_coding ! 1) ''c'' = Inr (Integer [1, 0, 2]) \<and>
   map_of [(''c'', Coded [(0, ''x''), (1, ''y'')])] ''c'' = Some (Coded (enumerate_dict [''x'', ''y''])) \<and>
   map_of (enumerate_dict [''x'', ''y'']) (1 - 1) = Some ''x'' \<and>
   map_of (enumerate_dict [''x'', ''y'']) (2 - 1) = Some ''y''"
proof -
  let ?m = "[(''c'', Coded [(0, ''x''), (1, ''y'')])]"
  have r: "fst example_coding = Inr (1, ?m)" by code_simp
  then have run: "numericalize_categories [missing_frame] 0 0 NoSelection = (Inr (1, ?m), snd example_coding)"
    unfolding example_coding_def by (metis prod.collapse)
  have wf: "wf_table ([missing_frame] ! 0)" by code_simp
  have col: "getitem ([missing_frame] ! 0) ''c'' = Inr (Category [''x'', ''y''] False [0, - 1, 1])"
    by code_simp
  have dist: "distinct (index ([missing_frame] ! 0))" by code_simp
  have nskip: "''c'' \<notin> set (normalize NoSelection)" by simp
  have big: "int (length [''x'', ''y'']) > 0" by simp
  have ev: "map (\<lambda>q. [0, - 1, 1] ! q + 1) [0..<length [0::int, - 1, 1]] = [1, 0, 2::int]"
    by code_simp
  from numericalize_categories_codes [OF run wf col nskip big] dist
  obtain qs where qs: "qs = [0..<length [0::int, - 1, 1]]"
    and out: "getitem (snd example_coding ! 1) ''c'' = Inr (Integer (map (\<lambda>q. [0, - 1, 1] ! q + 1) qs))"
    and mp: "map_of ?m ''c'' = Some (Coded (enumerate_dict [''x'', ''y'']))"
    and key: "\<forall>q \<in> set qs. [0, - 1, 1] ! q \<noteq> (- 1::int) \<longrightarrow>
             map_of (enumerate_dict [''x'', ''y'']) (([0, - 1, 1] ! q + 1) - 1) = Some ([''x'', ''y''] ! nat ([0, - 1, 1] ! q))"
    by blast
  from out have 1: "getitem (snd example_coding ! 1) ''c'' = Inr (Integer [1, 0, 2])"
    unfolding qs ev .
  have "0 \<in> set qs" "2 \<in> set qs" unfolding qs by simp_all
  with key have 2: "map_of (enumerate_dict [''x'', ''y'']) (1 - 1) = Some ''x''"
    and 3: "map_of (enumerate_dict [''x'', ''y'']) (2 - 1) = Some ''y''"
    by fastforce+
  from r wf col dist 1 mp 2 3 show ?thesis by (intro conjI)
qed

text \<open>
  The claim as written fails on a missing entry: its output code is 0, and 0 minus 1 is no key
  of the dictionary recorded for the column.
\<close>

theorem numericalize_categories_codes_counterexample:
  "fst example_coding = Inr (1, [(''c'', Coded [(0, ''x''), (1, ''y'')])]) \<and>
   getitem (snd example_coding ! 1) ''c'' = Inr (Integer [1, 0, 2]) \<and>
   map_of [(0::int, ''x''), (1, ''y'')] ([1, 0, 2] ! 1 - 1) = None"
  by code_simp


text \<open>
  C10: in the column of codes, an output row is 0 exactly when the entry of its input row is
  missing, and every other row is at least 1; the key \<open>0 - 1\<close> is not in the dictionary
  recorded for the column.
\<close>

theorem numericalize_categories_missing_code:
  assumes "numericalize_categories s data_frame max_categories skip_features
           = (Inr (r, category_mapper), s')"
    and "wf_table (s ! data_frame)"
    and "getitem (s ! data_frame) c = Inr (Category cats ord codes)"
    and "c \<notin> set (normalize skip_features)"
    and "int (length cats) > max_categories"
  shows "\<exists>qs out d. length qs = length (index (s' ! r)) \<and> (\<forall>q \<in> set qs. q < length codes) \<and>
          (distinct (index (s ! data_frame)) \<longrightarrow> qs = [0..<length codes]) \<and>
          getitem (s' ! r) c = Inr (Integer out) \<and> length out = length qs \<and>
          (\<forall>i < length qs. (out ! i = 0 \<longleftrightarrow> codes ! (qs ! i) = - 1) \<and>
                            (codes ! (qs ! i) \<noteq> - 1 \<longrightarrow> 1 \<le> out ! i)) \<and>
          map_of category_mapper c = Some (Coded d) \<and> map_of d (0 - 1) = None"
proof -
  note column = numericalize_categories_column [OF assms(1-4)]
  from column have rng: "\<forall>x \<in> set codes. - 1 \<le> x \<and> x < int (length cats)"
    by blast
  from column obtain qs where q1: "length qs = length (index (s' ! r))"
    and q2: "\<forall>q \<in> set qs. q < length codes"
    and q3': "distinct (index (s ! data_frame)) \<longrightarrow>
              qs = [0..<length codes] \<and> index (s' ! r) = index (s ! data_frame)"
    and br: "if int (length cats) > max_categories
        then getitem (s' ! r) c = Inr (Integer (map (\<lambda>q. codes ! q + 1) qs)) \<and>
             map_of category_mapper c = Some (Coded (enumerate_dict cats))
        else (\<forall>k < length cats. getitem (s' ! r) (c @ ''_'' @ cats ! k)
                = Inr (Integer (map (\<lambda>q. if codes ! q = int k then 1 else 0) qs))) \<and>
             map_of category_mapper c = Some OneHot \<and>
             (c \<notin> set (names (s' ! r)) \<or> (\<exists>d \<in> set (names (s ! data_frame)). \<exists>v. c = d @ ''_'' @ v))"
    by blast
  from q3' have q3: "distinct (index (s ! data_frame)) \<longrightarrow> qs = [0..<length codes]" by blast
  from br assms(5) have q4: "getitem (s' ! r) c = Inr (Integer (map (\<lambda>q. codes ! q + 1) qs))"
    and q5: "map_of category_mapper c = Some (Coded (enumerate_dict cats))"
    by simp_all
  let ?out = "map (\<lambda>q. codes ! q + 1) qs"
  have q6: "\<forall>i < length qs. (?out ! i = 0 \<longleftrightarrow> codes ! (qs ! i) = - 1) \<and>
                            (codes ! (qs ! i) \<noteq> - 1 \<longrightarrow> 1 \<le> ?out ! i)"
  proof (intro allI impI)
    fix i assume i: "i < length qs"
    with q2 have "codes ! (qs ! i) \<in> set codes" by simp
    with rng have "- 1 \<le> codes ! (qs ! i)" by blast
    with i show "(?out ! i = 0 \<longleftrightarrow> codes ! (qs ! i) = - 1) \<and>
                 (codes ! (qs ! i) \<noteq> - 1 \<longrightarrow> 1 \<le> ?out ! i)"
      by auto
  qed
  have q7: "map_of (enumerate_dict cats) (0 - 1) = None"
    by (simp add: map_of_enumerate_dict)
  have q8: "length ?out = length qs" by simp
  show ?thesis
    using q1 q2 q3 q4 q5 q6 q7 q8
    by (intro exI [where x = qs] exI [where x = ?out] exI [where x = "enumerate_dict cats"] conjI)
qed

theorem numericalize_categories_missing_code_witness:
  "fst example_coding = Inr (1, [(''c'', Coded [(0, ''x''), (1, ''y'')])]) \<and>
   wf_table ([missing_frame] ! 0) \<and>
   getitem ([missing_frame] ! 0) ''c'' = Inr (Category [''x'', ''y''] False [0, - 1, 1]) \<and>
   (\<exists>out. getitem (snd example_coding ! 1) ''c'' = Inr (Integer out) \<and> out ! 1 = 0 \<and> 1 \<le> out ! 0) \<and>
   (\<exists>d. map_of [(''c'', Coded [(0, ''x''), (1, ''y'')])] ''c'' = Some (Coded d) \<and> map_of d (0 - 1) = None)"
proof -
  let ?m = "[(''c'', Coded [(0, ''x''), (1, ''y'')])]"
  have r: "fst example_coding = Inr (1, ?m)" by code_simp
  then have run: "numericalize_categories [missing_frame] 0 0 NoSelection = (Inr (1, ?m), snd example_coding)"
    unfolding example_coding_def by (metis prod.collapse)
  have wf: "wf_table ([missing_frame] ! 0)" by code_simp
  have col: "getitem ([missing_frame] ! 0) ''c'' = Inr (Category [''x'', ''y''] False [0, - 1, 1])"
    by code_simp
  have dist: "distinct (index ([missing_frame] ! 0))" by code_simp
  have nskip: "''c'' \<notin> set (normalize NoSelection)" by simp
  have big: "int (length [''x'', ''y'']) > 0" by simp
  from numericalize_categories_missing_code [OF run wf col nskip big] dist
  obtain qs out d where qs: "qs = [0..<length [0::int, - 1, 1]]"
    and out: "getitem (snd example_coding ! 1) ''c'' = Inr (Integer out)"
    and rows: "\<forall>i < length qs. (out ! i = 0 \<longleftrightarrow> [0, - 1, 1] ! (qs ! i) = (- 1::int)) \<and>
                            ([0, - 1, 1] ! (qs ! i) \<noteq> (- 1::int) \<longrightarrow> 1 \<le> out ! i)"
    and mp: "map_of ?m ''c'' = Some (Coded d)" and key: "map_of d (0 - 1) = None"
    by blast
  have l: "length qs = 3" and q0: "qs ! 0 = 0" and q1: "qs ! 1 = 1" unfolding qs by simp_all
  from rows l have "(out ! 1 = 0 \<longleftrightarrow> [0, - 1, 1] ! (qs ! 1) = (- 1::int))"
    and "[0, - 1, 1] ! (qs ! 0) \<noteq> (- 1::int) \<longrightarrow> 1 \<le> out ! 0"
    by simp_all
  then have "out ! 1 = 0" "1 \<le> out ! 0" unfolding q0 q1 by simp_all
  with out have 1: "\<exists>out. getitem (snd example_coding ! 1) ''c'' = Inr (Integer out) \<and> out ! 1 = 0 \<and> 1 \<le> out ! 0"
    by blast
  from mp key have 2: "\<exists>d. map_of ?m ''c'' = Some (Coded d) \<and> map_of d (0 - 1) = None" by blast
  from r wf col 1 2 show ?thesis by (intro conjI)
qed

subsection \<open>Columns replaced by indicators\<close>

text \<open>
  C2, as the code has it: when the call returns, a categorical column that is not skipped and
  has at most \<^verbatim>\<open>max_categories\<close> categories is recorded as one-hot in the mapper, and the
  output has one 0/1 column per category, named after the column and the category, that is 1
  in the rows of that category (\<open>qs\<close> names the input row behind each output row: all rows in
  order when the labels of the index are distinct). The column itself is gone from the output;
  the one exception is that another categorical column \<open>d\<close> of the input, not skipped and with
  at most \<^verbatim>\<open>max_categories\<close> categories, has a category \<open>v\<close> for which \<open>d_v\<close> is the name of the
  column: the output column of that name is then the indicator of \<open>v\<close>. In every row the
  indicators of the column sum to 1 when the entry is present, and to 0 when it is missing.
\<close>

theorem numericalize_categories_one_hot:
  assumes "numericalize_categories s data_frame max_categories skip_features
           = (Inr (r, category_mapper), s')"
    and "wf_table (s ! data_frame)"
    and "getitem (s ! data_frame) c = Inr (Category cats ord codes)"
    and "c \<notin> set (normalize skip_features)"
    and "int (length cats) \<le> max_categories"
  shows "map_of category_mapper c = Some OneHot \<and>
    (c \<notin> set (names (s' ! r)) \<or>
     (\<exists>d cats' ord' codes' v. getitem (s ! data_frame) d = Inr (Category cats' ord' codes') \<and>
        d \<notin> set (normalize skip_features) \<and> int (length cats') \<le> max_categories \<and>
        v \<in> set cats' \<and> c = d @ ''_'' @ v)) \<and>
    (\<exists>qs inds. length qs = length (index (s' ! r)) \<and> (\<forall>q \<in> set qs. q < length codes) \<and>
       (distinct (index (s ! data_frame)) \<longrightarrow> qs = [0..<length codes]) \<and>
       length inds = length cats \<and>
       (\<forall>k < length cats. getitem (s' ! r) (c @ ''_'' @ cats ! k) = Inr (Integer (inds ! k)) \<and>
          inds ! k = map (\<lambda>q. if codes ! q = int k then 1 else 0) qs) \<and>
       (\<forall>i < length qs. (\<Sum>xs\<leftarrow>inds. xs ! i) = (if codes ! (qs ! i) = - 1 then 0 else 1)))"
proof -
  note column = numericalize_categories_column [OF assms(1-4)]
  from column have rng: "\<forall>x \<in> set codes. - 1 \<le> x \<and> x < int (length cats)"
    by blast
  from column obtain qs where q1: "length qs = length (index (s' ! r))"
    and q2: "\<forall>q \<in> set qs. q < length codes"
    and q3': "distinct (index (s ! data_frame)) \<longrightarrow>
              qs = [0..<length codes] \<and> index (s' ! r) = index (s ! data_frame)"
    and br: "if int (length cats) > max_categories
        then getitem (s' ! r) c = Inr (Integer (map (\<lambda>q. codes ! q + 1) qs)) \<and>
             map_of category_mapper c = Some (Coded (enumerate_dict cats))
        else (\<forall>k < length cats. getitem (s' ! r) (c @ ''_'' @ cats ! k)
                = Inr (Integer (map (\<lambda>q. if codes ! q = int k then 1 else 0) qs))) \<and>
             map_of category_mapper c = Some OneHot \<and>
             (c \<notin> set (names (s' ! r)) \<or> (\<exists>d \<in> set (names (s ! data_frame)). \<exists>v. c = d @ ''_'' @ v))"
    by blast
  from q3' have q3: "distinct (index (s ! data_frame)) \<longrightarrow> qs = [0..<length codes]" by blast
  from assms(5) have small: "\<not> int (length cats) > max_categories" by simp
  from br small have ind: "\<forall>k < length cats. getitem (s' ! r) (c @ ''_'' @ cats ! k)
                = Inr (Integer (map (\<lambda>q. if codes ! q = int k then 1 else 0) qs))"
    and mp: "map_of category_mapper c = Some OneHot"
    by simp_all
  note gone = numericalize_categories_dropped [OF assms]
  define inds where "inds = map (\<lambda>k. map (\<lambda>q. if codes ! q = int k then 1 else (0::int)) qs) [0..<length cats]"
  have l: "length inds = length cats" by (simp add: inds_def)
  have nth: "inds ! k = map (\<lambda>q. if codes ! q = int k then 1 else 0) qs" if "k < length cats" for k
    using that by (simp add: inds_def)
  have cols: "\<forall>k < length cats. getitem (s' ! r) (c @ ''_'' @ cats ! k) = Inr (Integer (inds ! k)) \<and>
          inds ! k = map (\<lambda>q. if codes ! q = int k then 1 else 0) qs"
    using ind nth by simp
  have sums: "\<forall>i < length qs. (\<Sum>xs\<leftarrow>inds. xs ! i) = (if codes ! (qs ! i) = - 1 then 0 else 1)"
  proof (intro allI impI)
    fix i assume i: "i < length qs"
    with q2 have "codes ! (qs ! i) \<in> set codes" by simp
    with rng have x: "- 1 \<le> codes ! (qs ! i)" "codes ! (qs ! i) < int (length cats)" by blast+
    have "(\<Sum>xs\<leftarrow>inds. xs ! i) = (\<Sum>k\<leftarrow>[0..<length cats]. if codes ! (qs ! i) = int k then 1 else 0)"
      using i by (simp add: inds_def comp_def)
    also have "\<dots> = (if codes ! (qs ! i) = - 1 then 0 else 1)"
      using x by (rule indicator_row_sum)
    finally show "(\<Sum>xs\<leftarrow>inds. xs ! i) = (if codes ! (qs ! i) = - 1 then 0 else 1)" .
  qed
  have "\<exists>qs inds. length qs = length (index (s' ! r)) \<and> (\<forall>q \<in> set qs. q < length codes) \<and>
       (distinct (index (s ! data_frame)) \<longrightarrow> qs = [0..<length codes]) \<and>
       length inds = length cats \<and>
       (\<forall>k < length cats. getitem (s' ! r) (c @ ''_'' @ cats ! k) = Inr (Integer (inds ! k)) \<and>
          inds ! k = map (\<lambda>q. if codes ! q = int k then 1 else 0) qs) \<and>
       (\<forall>i < length qs. (\<Sum>xs\<leftarrow>inds. xs ! i) = (if codes ! (qs ! i) = - 1 then 0 else 1))"
    using q1 q2 q3 l cols sums
    by (intro exI [where x = qs] exI [where x = inds] conjI)
  with mp gone show ?thesis by (intro conjI)
qed

theorem numericalize_categories_one_hot_witness:
  "fst example_one_hot = Inr (4, [(''c'', OneHot)]) \<and>
   wf_table ([missing_frame] ! 0) \<and>
   getitem ([missing_frame] ! 0) ''c'' = Inr (Category [''x'', ''y''] False [0, - 1, 1]) \<and>
   map_of [(''c'', OneHot)] ''c'' = Some OneHot \<and>
   ''c'' \<notin> set (names (snd example_one_hot ! 4)) \<and>
   (\<exists>inds. getitem (snd example_one_hot ! 4) ''c_x'' = Inr (Integer (inds ! 0)) \<and>
           getitem (snd example_one_hot ! 4) ''c_y'' = Inr (Integer (inds ! 1)) \<and>
           inds = [[1, 0, 0], [0, 0, 1]] \<and>
           (\<Sum>xs\<leftarrow>inds. xs ! 0) = 1 \<and> (\<Sum>xs\<leftarrow>inds. xs ! 1) = 0 \<and> (\<Sum>xs\<leftarrow>inds. xs ! 2) = 1)"
proof -
  let ?m = "[(''c'', OneHot)]"
  let ?codes = "[0, - 1, 1::int]"
  have r: "fst example_one_hot = Inr (4, ?m)" by code_simp
  then have run: "numericalize_categories [missing_frame] 0 2 NoSelection = (Inr (4, ?m), snd example_one_hot)"
    unfolding example_one_hot_def by (metis prod.collapse)
  have wf: "wf_table ([missing_frame] ! 0)" by code_simp
  have col: "getitem ([missing_frame] ! 0) ''c'' = Inr (Category [''x'', ''y''] False ?codes)"
    by code_simp
  have dist: "distinct (index ([missing_frame] ! 0))" by code_simp
  have nskip: "''c'' \<notin> set (normalize NoSelection)" by simp
  have small: "int (length [''x'', ''y'']) \<le> 2" by simp
  have other: "\<not> (\<exists>d cats' ord' codes' v.
        getitem ([missing_frame] ! 0) d = Inr (Category cats' ord' codes') \<and>
        d \<notin> set (normalize NoSelection) \<and> int (length cats') \<le> 2 \<and>
        v \<in> set cats' \<and> ''c'' = d @ ''_'' @ v)"
  proof
    assume "\<exists>d cats' ord' codes' v.
        getitem ([missing_frame] ! 0) d = Inr (Category cats' ord' codes') \<and>
        d \<notin> set (normalize NoSelection) \<and> int (length cats') \<le> 2 \<and>
        v \<in> set cats' \<and> ''c'' = d @ ''_'' @ v"
    then obtain d v where e: "''c'' = d @ ''_'' @ v" by blast
    then have "length ''c'' = length (d @ ''_'' @ v)" by (rule arg_cong)
    then have "d = [] \<and> v = []" by simp
    with e show False by simp
  qed
  note t = numericalize_categories_one_hot [OF run wf col nskip small]
  from t have mp: "map_of ?m ''c'' = Some OneHot" by blast
  from t other have gone: "''c'' \<notin> set (names (snd example_one_hot ! 4))" by blast
  from t dist obtain qs inds where qs: "qs = [0..<length ?codes]"
    and li: "length inds = length [''x'', ''y'']"
    and cols: "\<forall>k < length [''x'', ''y'']. getitem (snd example_one_hot ! 4) (''c'' @ ''_'' @ [''x'', ''y''] ! k) = Inr (Integer (inds ! k)) \<and>
          inds ! k = map (\<lambda>q. if ?codes ! q = int k then 1 else 0) qs"
    and sums: "\<forall>i < length qs. (\<Sum>xs\<leftarrow>inds. xs ! i) = (if ?codes ! (qs ! i) = - 1 then 0 else 1)"
    by blast
  have e0: "map (\<lambda>q. if ?codes ! q = int 0 then 1 else 0) [0..<length ?codes] = [1, 0, 0::int]"
    and e1: "map (\<lambda>q. if ?codes ! q = int 1 then 1 else 0) [0..<length ?codes] = [0, 0, 1::int]"
    by code_simp+
  from cols have c0: "getitem (snd example_one_hot ! 4) ''c_x'' = Inr (Integer (inds ! 0))"
    and i0: "inds ! 0 = [1, 0, 0]"
    and c1: "getitem (snd example_one_hot ! 4) ''c_y'' = Inr (Integer (inds ! 1))"
    and i1: "inds ! 1 = [0, 0, 1]"
    unfolding qs using e0 e1 by fastforce+
  have inds: "inds = [[1, 0, 0], [0, 0, 1]]"
    using li i0 i1 by (intro nth_equalityI) (auto simp: less_Suc_eq)
  have s: "(\<Sum>xs\<leftarrow>inds. xs ! 0) = 1 \<and> (\<Sum>xs\<leftarrow>inds. xs ! 1) = 0 \<and> (\<Sum>xs\<leftarrow>inds. xs ! 2) = 1"
    unfolding inds by simp
  from c0 c1 inds s have "\<exists>inds. getitem (snd example_one_hot ! 4) ''c_x'' = Inr (Integer (inds ! 0)) \<and>
           getitem (snd example_one_hot ! 4) ''c_y'' = Inr (Integer (inds ! 1)) \<and>
           inds = [[1, 0, 0], [0, 0, 1]] \<and>
           (\<Sum>xs\<leftarrow>inds. xs ! 0) = 1 \<and> (\<Sum>xs\<leftarrow>inds. xs ! 1) = 0 \<and> (\<Sum>xs\<leftarrow>inds. xs ! 2) = 1"
    by blast
  with r wf col mp gone show ?thesis by (intro conjI)
qed

text \<open>
  The claim as written fails on a missing entry: in the row where the column has none, all its
  indicator columns are 0, so they sum to 0 and not to 1.
\<close>

theorem numericalize_categories_one_hot_counterexample:
  "fst example_one_hot = Inr (4, [(''c'', OneHot)]) \<and>
   names (snd example_one_hot ! 4) = [''n'', ''c_x'', ''c_y''] \<and>
   getitem (snd example_one_hot ! 4) ''c_x'' = Inr (Integer [1, 0, 0]) \<and>
   getitem (snd example_one_hot ! 4) ''c_y'' = Inr (Integer [0, 0, 1]) \<and>
   [1, 0, 0] ! 1 + [0, 0, 1] ! 1 = (0::int)"
  by code_simp

subsection \<open>The rows of the output\<close>

text \<open>
  C7 fails on the indicator branch of \<^verbatim>\<open>numericalize_categories\<close>: \<^verbatim>\<open>df.join(one_hot)\<close> pairs rows by
  label, so on a frame whose two rows carry the same label every row is paired with both rows of
  the indicator frame. The input has two rows and the output has four; the column \<^verbatim>\<open>b\<close>, which
  is not processed, comes back as 10, 10, 20, 20. The branch that writes codes keeps the rows.
\<close>

theorem numericalize_categories_repeated_labels:
  "wf_table repeated_frame \<and>
   index repeated_frame = [0, 0] \<and>
   getitem repeated_frame ''b'' = Inr (Integer [10, 20]) \<and>
   fst example_repeated = Inr (4, [(''a'', OneHot)]) \<and>
   index (snd example_repeated ! 4) = [0, 0, 0, 0] \<and>
   names (snd example_repeated ! 4) = [''b'', ''a_x'', ''a_y''] \<and>
   getitem (snd example_repeated ! 4) ''b'' = Inr (Integer [10, 10, 20, 20]) \<and>
   getitem (snd example_repeated ! 4) ''a_x'' = Inr (Integer [1, 0, 1, 0]) \<and>
   getitem (snd example_repeated ! 4) ''a_y'' = Inr (Integer [0, 1, 0, 1]) \<and>
   fst (numericalize_categories [repeated_frame] 0 1 NoSelection)
     = Inr (1, [(''a'', Coded [(0, ''x''), (1, ''y'')])]) \<and>
   index (snd (numericalize_categories [repeated_frame] 0 1 NoSelection) ! 1) = [0, 0] \<and>
   getitem (snd (numericalize_categories [repeated_frame] 0 1 NoSelection) ! 1) ''a''
     = Inr (Integer [1, 2])"
  by code_simp

end
